theory Spec2Isabelle
  imports Main "HOL-Library.AList" "HOL-Library.Multiset" "HOL-Library.Char_ord"
    "HOL-Library.List_Lexorder" "HOL-Library.Sorting_Algorithms"
begin

section \<open>Values and objects\<close>

text \<open>
  The program is an object graph that is mutated in place: constructs point to their
  scope and own a table of children, properties keep a list of observers. Objects are
  therefore kept in stores that map an address to the object's fields, and every
  method takes the store and returns the updated one.

  A TypeScript position of type \<open>T | undefined\<close> can hold \<open>undefined\<close>, and the
  constructor of \<open>Construct\<close> compares against \<open>null\<close>, so both absent values are
  kept apart.
\<close>

type_synonym addr = nat

datatype 'a nullable = Undefined | Null | Is 'a

text \<open>
  Values of type \<open>any\<close>: plain data and references to constructs. A \<open>JObj\<close> is an
  object literal, its own keys in the order in which the host enumerates them.
\<close>

datatype val =
    JUndefined
  | JNull
  | JBool bool
  | JNum int
  | JStr string
  | JArr "val list"
  | JObj "(string \<times> val) list"
  | JRef addr

text \<open>The errors thrown by the library, one constructor for each \<open>throw\<close>.\<close>

datatype error =
    InvalidIdentityError    \<comment> \<open>Id must be empty only if scope is empty\<close>
  | DuplicateIdError        \<comment> \<open>Duplicate child\<close>
  | NotReparentableError    \<comment> \<open>Can only reparent a Construct that already had a parent\<close>
  | ReparentConflictError   \<comment> \<open>New parent already has a child with id\<close>
  | DuplicatePropertyError  \<comment> \<open>Duplicate property\<close>
  | UnknownPropertyError    \<comment> \<open>Unknown property\<close>
  | NotAResourceError       \<comment> \<open>Expected Resource to link\<close>
  | TypeMismatchError       \<comment> \<open>ScalarTweak expects ScalarProperty / ListTweak expects ListProperty\<close>
  | AlreadySetError         \<comment> \<open>already has a value\<close>
  | AlreadyLinkedError      \<comment> \<open>Link already has a value\<close>
  | DuplicateLogicalIdError \<comment> \<open>named by the specification only; no \<open>throw\<close> of the source raises it\<close>
  | NotCallableError        \<comment> \<open>the host's TypeError when a value that is not a function is called\<close>

text \<open>
  A property of a resource is a \<open>ScalarProperty\<close> (a \<open>DerivedProperty\<close> is one) or
  a \<open>CollectionProperty\<close>; the class of the object is part of the reference, which is
  what \<open>instanceof\<close> reads.
\<close>

datatype propref = ScalarRef addr | CollectionRef addr

text \<open>
  \<open>class Construct\<close>, with the fields that \<open>class Resource\<close> adds kept in
  \<open>resource\<close> (\<open>None\<close> for a construct that is not a resource). A
  \<open>Record<string, T>\<close> is a plain object \<open>{}\<close>: the list of its own keys, in the order
  in which they were created. Reading \<open>obj[name]\<close> finds an own key or, failing that,
  a member that every object inherits (\<open>inherited\<close>, below), and enumerating the
  object lists the keys that are array indices first (\<open>own_order\<close>, below).
\<close>

record resource_fields =
  resourceType :: string
  properties :: "(string \<times> propref) list"

record construct =
  scope :: "addr nullable"
  ident :: "string nullable"
  children :: "(string \<times> addr) list"
  linkableTargets :: "string list"
  resource :: "resource_fields option"

type_synonym cstore = "addr \<Rightarrow> construct"

section \<open>Plain objects as tables\<close>

text \<open>
  The names that a plain object inherits from \<open>Object.prototype\<close>. Each of them reads
  as a truthy value (a function, or the prototype itself) on every \<open>{}\<close>.
\<close>

definition object_prototype_names :: "string list" where
  "object_prototype_names =
     [''constructor'', ''hasOwnProperty'', ''isPrototypeOf'', ''propertyIsEnumerable'',
      ''toLocaleString'', ''toString'', ''valueOf'', ''__proto__'',
      ''__defineGetter__'', ''__defineSetter__'', ''__lookupGetter__'', ''__lookupSetter__'']"

definition inherited :: "string \<Rightarrow> bool" where
  "inherited name = (name \<in> set object_prototype_names)"

text \<open>
  The test \<open>if (obj[name])\<close> on a table whose own values are objects: it holds for
  an own key and for an inherited name.
\<close>

definition has_member :: "(string \<times> 'v) list \<Rightarrow> string \<Rightarrow> bool" where
  "has_member al name = (case map_of al name of Some x \<Rightarrow> True | None \<Rightarrow> inherited name)"

text \<open>
  A key is an array index if it is the canonical decimal numeral of a number below
  \<open>2^32 - 1\<close>. \<open>Object.keys\<close>, \<open>Object.values\<close> and \<open>Object.entries\<close> list the array
  indices first, in ascending order, and then the other keys in the order of their
  creation.
\<close>

definition digit :: "char \<Rightarrow> nat option" where
  "digit = map_of
     [(CHR ''0'', 0), (CHR ''1'', 1), (CHR ''2'', 2), (CHR ''3'', 3), (CHR ''4'', 4),
      (CHR ''5'', 5), (CHR ''6'', 6), (CHR ''7'', 7), (CHR ''8'', 8), (CHR ''9'', 9)]"

fun decimal :: "string \<Rightarrow> nat \<Rightarrow> nat option" where
  "decimal [] acc = Some acc"
| "decimal (c # cs) acc =
     (case digit c of
        None \<Rightarrow> None
      | Some d \<Rightarrow> decimal cs (10 * acc + d))"

definition array_index :: "string \<Rightarrow> nat option" where
  "array_index s =
     (case s of
        [] \<Rightarrow> None
      | c # cs \<Rightarrow>
          if c = CHR ''0'' \<and> cs \<noteq> [] then None
          else (case decimal s 0 of
                  None \<Rightarrow> None
                | Some k \<Rightarrow> if k < 4294967295 then Some k else None))"

definition index_rank :: "string \<Rightarrow> nat" where
  "index_rank s = (case array_index s of None \<Rightarrow> 0 | Some k \<Rightarrow> k)"

definition own_order :: "(string \<times> 'v) list \<Rightarrow> (string \<times> 'v) list" where
  "own_order al =
     sort_key (\<lambda>(k, v). index_rank k) (filter (\<lambda>(k, v). array_index k \<noteq> None) al)
     @ filter (\<lambda>(k, v). array_index k = None) al"

section \<open>The construct tree\<close>

text \<open>
  \<open>new Construct(_scope, id)\<close> at the fresh address \<open>this\<close>. The field initialisers
  run first, then the body. \<open>_scope && id\<close> holds when both are present and the
  id is not the empty string. \<open>_scope.children[id]\<close> is truthy for an own child and
  for an inherited name. A constructor that throws leaves the store as it found it,
  apart from the unreachable new object.
\<close>

definition new_construct :: "addr nullable \<Rightarrow> string nullable \<Rightarrow> construct" where
  "new_construct sc i =
     \<lparr> scope = sc, ident = i, children = [], linkableTargets = [], resource = None \<rparr>"

definition Construct_constructor ::
  "addr \<Rightarrow> addr nullable \<Rightarrow> string nullable \<Rightarrow> cstore \<Rightarrow> error + cstore" where
  "Construct_constructor this sc i h =
     (if (i = Null) \<noteq> (sc = Null) then Inl InvalidIdentityError
      else
        let h1 = h(this := new_construct sc i) in
        (case (sc, i) of
           (Is p, Is s) \<Rightarrow>
             if s \<noteq> [] then
               (if has_member (children (h1 p)) s then Inl DuplicateIdError
                else Inr (h1(p := (h1 p)\<lparr> children := AList.update s this (children (h1 p)) \<rparr>)))
             else Inr h1
         | _ \<Rightarrow> Inr h1))"

text \<open>
  \<open>reparentTo\<close>. The loop runs over a snapshot of the entries of the old parent's
  children and deletes the key of each entry that holds \<open>this\<close>; the check of the
  new parent comes after it. The store at the moment of a \<open>throw\<close> is returned with
  the error. The constructor rejects an inherited name as a duplicate, so the id of
  a node with a scope is never one, and the check of the new parent is a lookup
  among its own children.
\<close>

definition remove_child :: "addr \<Rightarrow> (string \<times> addr) list \<Rightarrow> (string \<times> addr) list" where
  "remove_child this cs =
     fold (\<lambda>(k, c) acc. if c = this then AList.delete k acc else acc) cs cs"

definition reparentTo :: "addr \<Rightarrow> addr \<Rightarrow> cstore \<Rightarrow> (error + unit) \<times> cstore" where
  "reparentTo this newParent h =
     (case (scope (h this), ident (h this)) of
        (Is p, Is s) \<Rightarrow>
          if s = [] then (Inl NotReparentableError, h)
          else
            let h1 = h(p := (h p)\<lparr> children := remove_child this (children (h p)) \<rparr>) in
            if map_of (children (h1 newParent)) s \<noteq> None
            then (Inl ReparentConflictError, h1)
            else
              let h2 = h1(this := (h1 this)\<lparr> scope := Is newParent \<rparr>);
                  h3 = h2(newParent := (h2 newParent)
                         \<lparr> children := AList.update s this (children (h2 newParent)) \<rparr>)
              in (Inr (), h3)
      | _ \<Rightarrow> (Inl NotReparentableError, h))"

section \<open>Observables and properties\<close>

text \<open>
  An observer is a callback. The library itself creates one kind, the closure of the
  \<open>DerivedProperty\<close> constructor, \<open>(x) => this.set(tx(x))\<close>: \<open>Derive this tx\<close>. A
  callback handed in from outside is a \<open>Probe\<close>: calling it appends its number and
  its argument to the record of calls, which is how a notification is observed.
\<close>

datatype observer = Derive addr "val \<Rightarrow> val" | Probe nat

record scalar =
  scalar_value :: val
  scalar_observers :: "observer list"

record collection =
  collection_value :: "val list"
  collection_observers :: "observer list"

record linkrel =
  targets :: "string list"
  link_value :: "addr option"
  link_observers :: "observer list"

text \<open>
  The whole store: one table for each class of object, the record of calls made to
  outside callbacks, and the address of the singleton \<open>Scope.FLOATING\<close>. The stack
  traces that \<open>set\<close> captures are text of the host and are left out.
\<close>

record state =
  constructs :: cstore
  scalars :: "addr \<Rightarrow> scalar"
  collections :: "addr \<Rightarrow> collection"
  linkrels :: "addr \<Rightarrow> linkrel"
  calls :: "(nat \<times> val) list"
  floating :: addr

text \<open>
  \<open>ScalarProperty.set\<close>, \<open>Observable.fire\<close> and the call of one observer call each
  other. The first argument bounds the depth of calls of \<open>Derive\<close> closures that are
  still open; \<open>None\<close> is a chain of such calls that does not end within the bound.
  No callback of the model registers an observer, so the loop of \<open>fire\<close> runs over
  the list as it is when the loop starts.
\<close>

fun ScalarProperty_set :: "nat \<Rightarrow> addr \<Rightarrow> val \<Rightarrow> state \<Rightarrow> state option"
  and fire :: "nat \<Rightarrow> observer list \<Rightarrow> val \<Rightarrow> state \<Rightarrow> state option"
  and call_observer :: "nat \<Rightarrow> observer \<Rightarrow> val \<Rightarrow> state \<Rightarrow> state option"
where
  "ScalarProperty_set n this x st =
     (let st1 = st\<lparr> scalars := (scalars st)(this := (scalars st this)\<lparr> scalar_value := x \<rparr>) \<rparr>
      in fire n (scalar_observers (scalars st1 this)) x st1)"
| "fire n [] x st = Some st"
| "fire n (obs # rest) x st =
     (case call_observer n obs x st of
        None \<Rightarrow> None
      | Some st1 \<Rightarrow> fire n rest x st1)"
| "call_observer n (Probe k) x st = Some (st\<lparr> calls := calls st @ [(k, x)] \<rparr>)"
| "call_observer 0 (Derive d tx) x st = None"
| "call_observer (Suc n) (Derive d tx) x st = ScalarProperty_set n d (tx x) st"

declare ScalarProperty_set.simps [simp del]

text \<open>
  \<open>Observable.addObserver\<close> pushes the observer; \<open>Property.addObserver\<close> calls it
  first and then calls the observer with the value if the value is not
  \<open>undefined\<close>. It is inherited by \<open>ScalarProperty\<close>, and \<open>CollectionProperty\<close>
  overrides it: the override calls the inherited method and then runs the same test
  and call again. The two arguments \<open>push\<close> and \<open>getv\<close> are the object's observer
  list and its \<open>value\<close> getter.
\<close>

definition Property_addObserver ::
  "(observer \<Rightarrow> state \<Rightarrow> state) \<Rightarrow> (state \<Rightarrow> val) \<Rightarrow> nat \<Rightarrow> observer \<Rightarrow> state \<Rightarrow> state option" where
  "Property_addObserver push getv n obs st =
     (let st1 = push obs st in
      if getv st1 \<noteq> JUndefined then call_observer n obs (getv st1) st1 else Some st1)"

definition ScalarProperty_constructor :: "addr \<Rightarrow> val \<Rightarrow> state \<Rightarrow> state" where
  "ScalarProperty_constructor this initialValue st =
     st\<lparr> scalars := (scalars st)(this := \<lparr> scalar_value = initialValue, scalar_observers = [] \<rparr>) \<rparr>"

definition ScalarProperty_value :: "addr \<Rightarrow> state \<Rightarrow> val" where
  "ScalarProperty_value this st = scalar_value (scalars st this)"

definition ScalarProperty_hasValue :: "addr \<Rightarrow> state \<Rightarrow> bool" where
  "ScalarProperty_hasValue this st = (scalar_value (scalars st this) \<noteq> JUndefined)"

definition ScalarProperty_push :: "addr \<Rightarrow> observer \<Rightarrow> state \<Rightarrow> state" where
  "ScalarProperty_push this obs st =
     st\<lparr> scalars := (scalars st)(this := (scalars st this)
          \<lparr> scalar_observers := scalar_observers (scalars st this) @ [obs] \<rparr>) \<rparr>"

definition ScalarProperty_addObserver :: "nat \<Rightarrow> addr \<Rightarrow> observer \<Rightarrow> state \<Rightarrow> state option" where
  "ScalarProperty_addObserver n this obs st =
     Property_addObserver (ScalarProperty_push this) (ScalarProperty_value this) n obs st"

definition CollectionProperty_constructor :: "addr \<Rightarrow> state \<Rightarrow> state" where
  "CollectionProperty_constructor this st =
     st\<lparr> collections := (collections st)(this :=
          \<lparr> collection_value = [], collection_observers = [] \<rparr>) \<rparr>"

definition CollectionProperty_value :: "addr \<Rightarrow> state \<Rightarrow> val" where
  "CollectionProperty_value this st = JArr (collection_value (collections st this))"

definition CollectionProperty_push :: "addr \<Rightarrow> observer \<Rightarrow> state \<Rightarrow> state" where
  "CollectionProperty_push this obs st =
     st\<lparr> collections := (collections st)(this := (collections st this)
          \<lparr> collection_observers := collection_observers (collections st this) @ [obs] \<rparr>) \<rparr>"

definition CollectionProperty_add :: "nat \<Rightarrow> addr \<Rightarrow> val \<Rightarrow> state \<Rightarrow> state option" where
  "CollectionProperty_add n this x st =
     (let st1 = st\<lparr> collections := (collections st)(this := (collections st this)
                    \<lparr> collection_value := collection_value (collections st this) @ [x] \<rparr>) \<rparr>
      in fire n (collection_observers (collections st1 this)) (CollectionProperty_value this st1) st1)"

definition CollectionProperty_addObserver ::
  "nat \<Rightarrow> addr \<Rightarrow> observer \<Rightarrow> state \<Rightarrow> state option" where
  "CollectionProperty_addObserver n this obs st =
     (case Property_addObserver (CollectionProperty_push this) (CollectionProperty_value this) n obs st of
        None \<Rightarrow> None
      | Some st1 \<Rightarrow>
          if CollectionProperty_value this st1 \<noteq> JUndefined
          then call_observer n obs (CollectionProperty_value this st1) st1
          else Some st1)"

text \<open>
  \<open>LinkRelationship\<close> extends \<open>Observable\<close> directly. Its value is a construct or
  \<open>undefined\<close>; observers receive the construct.
\<close>

definition LinkRelationship_set ::
  "nat \<Rightarrow> addr \<Rightarrow> addr \<Rightarrow> state \<Rightarrow> ((error + unit) \<times> state) option" where
  "LinkRelationship_set n this x st =
     (if link_value (linkrels st this) \<noteq> None then Some (Inl AlreadyLinkedError, st)
      else
        let st1 = st\<lparr> linkrels := (linkrels st)(this := (linkrels st this)\<lparr> link_value := Some x \<rparr>) \<rparr>
        in (case fire n (link_observers (linkrels st1 this)) (JRef x) st1 of
              None \<Rightarrow> None
            | Some st2 \<Rightarrow> Some (Inr (), st2)))"

definition LinkRelationship_constructor ::
  "nat \<Rightarrow> addr \<Rightarrow> string list \<Rightarrow> addr option \<Rightarrow> state \<Rightarrow> ((error + unit) \<times> state) option" where
  "LinkRelationship_constructor n this ts initialValue st =
     (let st1 = st\<lparr> linkrels := (linkrels st)(this :=
                   \<lparr> targets = ts, link_value = None, link_observers = [] \<rparr>) \<rparr>
      in (case initialValue of
            None \<Rightarrow> Some (Inr (), st1)
          | Some x \<Rightarrow> LinkRelationship_set n this x st1))"

definition LinkRelationship_addObserver ::
  "nat \<Rightarrow> addr \<Rightarrow> observer \<Rightarrow> state \<Rightarrow> state option" where
  "LinkRelationship_addObserver n this obs st =
     (let st1 = st\<lparr> linkrels := (linkrels st)(this := (linkrels st this)
                    \<lparr> link_observers := link_observers (linkrels st this) @ [obs] \<rparr>) \<rparr>
      in (case link_value (linkrels st1 this) of
            None \<Rightarrow> Some st1
          | Some x \<Rightarrow> call_observer n obs (JRef x) st1))"

text \<open>
  \<open>new DerivedProperty(observed, tx)\<close> at the fresh address \<open>this\<close>: a scalar
  without a value, whose closure is registered with \<open>observed\<close> through the
  \<open>addObserver\<close> of the class of \<open>observed\<close>.
\<close>

datatype observable = PropertyObs propref | LinkObs addr

definition DerivedProperty_constructor ::
  "nat \<Rightarrow> addr \<Rightarrow> observable \<Rightarrow> (val \<Rightarrow> val) \<Rightarrow> state \<Rightarrow> state option" where
  "DerivedProperty_constructor n this observed tx st =
     (let st1 = ScalarProperty_constructor this JUndefined st in
      case observed of
        PropertyObs (ScalarRef a) \<Rightarrow> ScalarProperty_addObserver n a (Derive this tx) st1
      | PropertyObs (CollectionRef a) \<Rightarrow> CollectionProperty_addObserver n a (Derive this tx) st1
      | LinkObs a \<Rightarrow> LinkRelationship_addObserver n a (Derive this tx) st1)"

section \<open>Resources and rendering\<close>

text \<open>
  \<open>constructPath\<close> walks the scope references upwards for as long as the node has a
  scope and a non-empty id. On a store whose scope references form a cycle the loop
  does not end, which is the value \<open>None\<close>.
\<close>

partial_function (option) constructPath_loop ::
  "cstore \<Rightarrow> addr \<Rightarrow> string list \<Rightarrow> string list option" where
  "constructPath_loop h x ret =
     (case scope (h x) of
        Is p \<Rightarrow>
          (case ident (h x) of
             Is s \<Rightarrow> if s \<noteq> [] then constructPath_loop h p (s # ret) else Some ret
           | _ \<Rightarrow> Some ret)
      | _ \<Rightarrow> Some ret)"

definition constructPath :: "cstore \<Rightarrow> addr \<Rightarrow> string list option" where
  "constructPath h this = constructPath_loop h this []"

text \<open>\<open>Array.prototype.join\<close> on a list of strings.\<close>

fun join :: "string \<Rightarrow> string list \<Rightarrow> string" where
  "join sep [] = []"
| "join sep [x] = x"
| "join sep (x # y # ys) = x @ sep @ join sep (y # ys)"

definition logicalId :: "cstore \<Rightarrow> addr \<Rightarrow> string option" where
  "logicalId h this = map_option (join []) (constructPath h this)"

text \<open>
  \<open>new Resource(scope, id, resourceType)\<close>, \<open>addProperty\<close> and \<open>property\<close>. The two
  methods work on the fields that the class adds. \<open>this.properties[name]\<close> is an own
  property object or, for an inherited name, a member that is not a property
  object: \<open>property\<close> then returns that member without throwing.
\<close>

definition Resource_constructor ::
  "addr \<Rightarrow> addr \<Rightarrow> string \<Rightarrow> string \<Rightarrow> state \<Rightarrow> (error + unit) \<times> state" where
  "Resource_constructor this sc i rt st =
     (case Construct_constructor this (Is sc) (Is i) (constructs st) of
        Inl e \<Rightarrow> (Inl e, st)
      | Inr h \<Rightarrow>
          (Inr (), st\<lparr> constructs := h(this := (h this)
                       \<lparr> resource := Some \<lparr> resourceType = rt, properties = [] \<rparr> \<rparr>) \<rparr>))"

datatype member = Own propref | Inherited

definition Resource_addProperty ::
  "string \<Rightarrow> propref \<Rightarrow> resource_fields \<Rightarrow> error + resource_fields" where
  "Resource_addProperty name prop r =
     (if has_member (properties r) name then Inl DuplicatePropertyError
      else Inr (r\<lparr> properties := AList.update name prop (properties r) \<rparr>))"

definition Resource_property :: "string \<Rightarrow> resource_fields \<Rightarrow> error + member" where
  "Resource_property name r =
     (case map_of (properties r) name of
        Some prop \<Rightarrow> Inr (Own prop)
      | None \<Rightarrow> if inherited name then Inr Inherited else Inl UnknownPropertyError)"

text \<open>The \<open>value\<close> getter of a property, by the class of the object.\<close>

fun Property_value :: "state \<Rightarrow> propref \<Rightarrow> val" where
  "Property_value st (ScalarRef a) = ScalarProperty_value a st"
| "Property_value st (CollectionRef a) = CollectionProperty_value a st"

text \<open>JavaScript truthiness.\<close>

fun truthy :: "val \<Rightarrow> bool" where
  "truthy JUndefined = False"
| "truthy JNull = False"
| "truthy (JBool b) = b"
| "truthy (JNum k) = (k \<noteq> 0)"
| "truthy (JStr s) = (s \<noteq> [])"
| "truthy (JArr xs) = True"
| "truthy (JObj kvs) = True"
| "truthy (JRef a) = True"

text \<open>
  \<open>Object.fromEntries\<close> defines one own key after the other on a fresh object;
  \<open>Object.assign\<close> assigns the own keys of an object literal to \<open>ret\<close>, one after the
  other. An existing key keeps its place and takes the new value. An assignment to
  the name \<open>__proto__\<close> goes to the setter that every plain object inherits: it
  changes the prototype of \<open>ret\<close> and creates no own key.
\<close>

definition fromEntries :: "(string \<times> val) list \<Rightarrow> (string \<times> val) list" where
  "fromEntries kvs = fold (\<lambda>(k, v) acc. AList.update k v acc) kvs []"

definition object_assign :: "(string \<times> val) list \<Rightarrow> (string \<times> val) list \<Rightarrow> (string \<times> val) list" where
  "object_assign ret kvs =
     fold (\<lambda>(k, v) acc. if k = ''__proto__'' then acc else AList.update k v acc) kvs ret"

text \<open>
  \<open>Resource.render\<close>, returning the entries of the object literal it builds, and
  \<open>Property.rendered\<close> applied to the value of the property. \<open>isRenderable\<close> holds for an
  object with a truthy \<open>render\<close>: among the values of the model, a reference to a
  resource (whose \<open>render\<close> is then called, one level deeper), and an object literal
  with a truthy \<open>render\<close> entry, which is data and cannot be called. Calling
  \<open>render\<close> on a construct that is not a resource fails in the same way.
\<close>

fun Resource_render :: "nat \<Rightarrow> state \<Rightarrow> addr \<Rightarrow> (error + (string \<times> val) list) option"
  and render_entries ::
    "nat \<Rightarrow> state \<Rightarrow> (string \<times> propref) list \<Rightarrow> (error + (string \<times> val) list) option"
  and rendered :: "nat \<Rightarrow> state \<Rightarrow> val \<Rightarrow> (error + val) option"
where
  "Resource_render n st this =
     (case resource (constructs st this) of
        None \<Rightarrow> Some (Inl NotCallableError)
      | Some r \<Rightarrow>
          (case logicalId (constructs st) this of
             None \<Rightarrow> None
           | Some lid \<Rightarrow>
               (case render_entries n st (own_order (properties r)) of
                  None \<Rightarrow> None
                | Some (Inl e) \<Rightarrow> Some (Inl e)
                | Some (Inr ps) \<Rightarrow>
                    Some (Inr [(lid, JObj [(''Type'', JStr (resourceType r)),
                                          (''Properties'', JObj (own_order (fromEntries ps)))])]))))"
| "render_entries n st [] = Some (Inr [])"
| "render_entries n st ((name, prop) # rest) =
     (case rendered n st (Property_value st prop) of
        None \<Rightarrow> None
      | Some (Inl e) \<Rightarrow> Some (Inl e)
      | Some (Inr v) \<Rightarrow>
          (case render_entries n st rest of
             None \<Rightarrow> None
           | Some (Inl e) \<Rightarrow> Some (Inl e)
           | Some (Inr vs) \<Rightarrow> Some (Inr ((name, v) # vs))))"
| "rendered n st (JRef a) =
     (if resource (constructs st a) = None then Some (Inr (JRef a))
      else (case n of
              0 \<Rightarrow> None
            | Suc m \<Rightarrow>
                (case Resource_render m st a of
                   None \<Rightarrow> None
                 | Some (Inl e) \<Rightarrow> Some (Inl e)
                 | Some (Inr kvs) \<Rightarrow> Some (Inr (JObj kvs)))))"
| "rendered n st (JObj kvs) =
     (case map_of kvs ''render'' of
        None \<Rightarrow> Some (Inr (JObj kvs))
      | Some f \<Rightarrow> if truthy f then Some (Inl NotCallableError) else Some (Inr (JObj kvs)))"
| "rendered n st JUndefined = Some (Inr JUndefined)"
| "rendered n st JNull = Some (Inr JNull)"
| "rendered n st (JBool b) = Some (Inr (JBool b))"
| "rendered n st (JNum k) = Some (Inr (JNum k))"
| "rendered n st (JStr s) = Some (Inr (JStr s))"
| "rendered n st (JArr xs) = Some (Inr (JArr xs))"

declare Resource_render.simps [simp del]

text \<open>
  \<open>findAll\<close>: the queue is taken from the front and the children of the node are
  pushed at the back. On a store whose children form a cycle the loop does not end.
\<close>

partial_function (option) findAll_loop ::
  "cstore \<Rightarrow> addr list \<Rightarrow> addr list \<Rightarrow> addr list option" where
  "findAll_loop h stack ret =
     (case stack of
        [] \<Rightarrow> Some ret
      | first # rest \<Rightarrow>
          findAll_loop h (rest @ map snd (own_order (children (h first))))
            (if resource (h first) \<noteq> None then ret @ [first] else ret))"

definition findAll :: "cstore \<Rightarrow> addr \<Rightarrow> addr list option" where
  "findAll h sc = findAll_loop h [sc] []"

text \<open>
  \<open>renderAll\<close>. The comparison function of the sort is \<open>localeCompare\<close> on the paths
  joined with a slash. \<open>localeCompare\<close> is the collation of the host and is an
  argument of the model, \<open>lc\<close>: nothing is known of it but that it is a consistent
  comparison (the type \<open>string comparator\<close>), so it may order strings in another way
  than by their characters and may treat distinct strings as equal. The host's sort
  is stable; with a consistent comparison every stable sort returns the same list,
  here the one of the insertion sort. The key of every resource is computed before
  the list is sorted; a path that does not end makes the call not end. The merge
  renders the resources in sorted order and assigns each rendering onto \<open>ret\<close>; the
  object returned lists its keys in the order of enumeration.
\<close>

definition path_key :: "cstore \<Rightarrow> addr \<Rightarrow> string option" where
  "path_key h r = map_option (join ''/'') (constructPath h r)"

definition keyed :: "cstore \<Rightarrow> addr list \<Rightarrow> (string \<times> addr) list option" where
  "keyed h res = those (map (\<lambda>r. map_option (\<lambda>k. (k, r)) (path_key h r)) res)"

definition sort_by_path :: "string comparator \<Rightarrow> cstore \<Rightarrow> addr list \<Rightarrow> addr list option" where
  "sort_by_path lc h res =
     map_option (\<lambda>krs. map snd (Sorting_Algorithms.sort (key fst lc) krs)) (keyed h res)"

fun renderAll_merge ::
  "nat \<Rightarrow> state \<Rightarrow> addr list \<Rightarrow> (string \<times> val) list \<Rightarrow> (error + (string \<times> val) list) option" where
  "renderAll_merge n st [] ret = Some (Inr ret)"
| "renderAll_merge n st (r # rs) ret =
     (case Resource_render n st r of
        None \<Rightarrow> None
      | Some (Inl e) \<Rightarrow> Some (Inl e)
      | Some (Inr kvs) \<Rightarrow> renderAll_merge n st rs (object_assign ret kvs))"

definition renderAll :: "string comparator \<Rightarrow> nat \<Rightarrow> state \<Rightarrow> addr \<Rightarrow> (error + val) option" where
  "renderAll lc n st sc =
     (case findAll (constructs st) sc of
        None \<Rightarrow> None
      | Some res \<Rightarrow>
          (case sort_by_path lc (constructs st) res of
             None \<Rightarrow> None
           | Some res_sorted \<Rightarrow>
               (case renderAll_merge n st res_sorted [] of
                  None \<Rightarrow> None
                | Some (Inl e) \<Rightarrow> Some (Inl e)
                | Some (Inr ret) \<Rightarrow> Some (Inr (JObj (own_order ret))))))"

section \<open>Linkables and tweaks\<close>

text \<open>
  \<open>interface ILinkable\<close>: the target tags and the \<open>linkTo\<close> operation; \<open>as_construct\<close>
  is the address of the linkable when it is itself a construct, which is what
  \<open>Construct.isConstruct\<close> reads. An operation that changes the store and may throw
  returns the error or the result together with the store at that moment; \<open>None\<close>
  is a call that does not end within the bound on the depth of calls.
\<close>

type_synonym outcome = "((error + unit) \<times> state) option"

record ilinkable =
  linkTargets :: "string list"
  linkTo :: "nat \<Rightarrow> addr \<Rightarrow> state \<Rightarrow> outcome"
  as_construct :: "addr option"

definition ScalarTweak_linkTo :: "string \<Rightarrow> val \<Rightarrow> nat \<Rightarrow> addr \<Rightarrow> state \<Rightarrow> outcome" where
  "ScalarTweak_linkTo property v n res st =
     (case resource (constructs st res) of
        None \<Rightarrow> Some (Inl NotAResourceError, st)
      | Some r \<Rightarrow>
          (case Resource_property property r of
             Inl e \<Rightarrow> Some (Inl e, st)
           | Inr Inherited \<Rightarrow> Some (Inl TypeMismatchError, st)
           | Inr (Own (CollectionRef a)) \<Rightarrow> Some (Inl TypeMismatchError, st)
           | Inr (Own (ScalarRef a)) \<Rightarrow>
               if ScalarProperty_hasValue a st then Some (Inl AlreadySetError, st)
               else (case ScalarProperty_set n a v st of
                       None \<Rightarrow> None
                     | Some st1 \<Rightarrow> Some (Inr (), st1))))"

definition ScalarTweak :: "string \<Rightarrow> string \<Rightarrow> val \<Rightarrow> ilinkable" where
  "ScalarTweak rt property v =
     \<lparr> linkTargets = [rt], linkTo = ScalarTweak_linkTo property v, as_construct = None \<rparr>"

definition CollectionTweak_linkTo :: "string \<Rightarrow> val \<Rightarrow> nat \<Rightarrow> addr \<Rightarrow> state \<Rightarrow> outcome" where
  "CollectionTweak_linkTo coll v n res st =
     (case resource (constructs st res) of
        None \<Rightarrow> Some (Inl NotAResourceError, st)
      | Some r \<Rightarrow>
          (case Resource_property coll r of
             Inl e \<Rightarrow> Some (Inl e, st)
           | Inr Inherited \<Rightarrow> Some (Inl TypeMismatchError, st)
           | Inr (Own (ScalarRef a)) \<Rightarrow> Some (Inl TypeMismatchError, st)
           | Inr (Own (CollectionRef a)) \<Rightarrow>
               (case CollectionProperty_add n a v st of
                  None \<Rightarrow> None
                | Some st1 \<Rightarrow> Some (Inr (), st1))))"

definition CollectionTweak :: "string \<Rightarrow> string \<Rightarrow> val \<Rightarrow> ilinkable" where
  "CollectionTweak rt coll v =
     \<lparr> linkTargets = [rt], linkTo = CollectionTweak_linkTo coll v, as_construct = None \<rparr>"

text \<open>
  \<open>Linkable.tryLink\<close>. The message it writes when the environment asks for debugging
  output is not part of the store and is left out.
\<close>

definition tryLink :: "nat \<Rightarrow> ilinkable \<Rightarrow> addr \<Rightarrow> state \<Rightarrow> outcome" where
  "tryLink n linkable target st =
     (if list_ex (\<lambda>t. t \<in> set (linkableTargets (constructs st target))) (linkTargets linkable)
      then linkTo linkable n target st
      else Some (Inr (), st))"

text \<open>
  \<open>Construct.link\<close>: the first loop over the linkables (\<open>link_each\<close>), then the
  recursion into the children as they are after that loop. The bound counts the
  nested calls of \<open>link\<close> as well.
\<close>

definition adopt :: "ilinkable \<Rightarrow> addr \<Rightarrow> state \<Rightarrow> (error + unit) \<times> state" where
  "adopt linkable this st =
     (case as_construct linkable of
        None \<Rightarrow> (Inr (), st)
      | Some c \<Rightarrow>
          if scope (constructs st c) = Is (floating st)
          then (case reparentTo c this (constructs st) of (r, h) \<Rightarrow> (r, st\<lparr> constructs := h \<rparr>))
          else (Inr (), st))"

fun link_each :: "nat \<Rightarrow> ilinkable option list \<Rightarrow> addr \<Rightarrow> state \<Rightarrow> outcome" where
  "link_each n [] this st = Some (Inr (), st)"
| "link_each n (None # rest) this st = link_each n rest this st"
| "link_each n (Some linkable # rest) this st =
     (case adopt linkable this st of
        (Inl e, st1) \<Rightarrow> Some (Inl e, st1)
      | (Inr _, st1) \<Rightarrow>
          (case tryLink n linkable this st1 of
             None \<Rightarrow> None
           | Some (Inl e, st2) \<Rightarrow> Some (Inl e, st2)
           | Some (Inr _, st2) \<Rightarrow> link_each n rest this st2))"

fun link :: "nat \<Rightarrow> ilinkable option list \<Rightarrow> addr \<Rightarrow> state \<Rightarrow> outcome"
  and link_children :: "nat \<Rightarrow> ilinkable option list \<Rightarrow> addr list \<Rightarrow> state \<Rightarrow> outcome"
where
  "link 0 linkables this st = None"
| "link (Suc n) linkables this st =
     (case link_each n linkables this st of
        None \<Rightarrow> None
      | Some (Inl e, st1) \<Rightarrow> Some (Inl e, st1)
      | Some (Inr _, st1) \<Rightarrow>
          link_children n linkables (map snd (own_order (children (constructs st1 this)))) st1)"
| "link_children n linkables [] st = Some (Inr (), st)"
| "link_children n linkables (child # rest) st =
     (case link n linkables child st of
        None \<Rightarrow> None
      | Some (Inl e, st1) \<Rightarrow> Some (Inl e, st1)
      | Some (Inr _, st1) \<Rightarrow> link_children n linkables rest st1)"

section \<open>Building resources\<close>

text \<open>
  \<open>makeLinkable\<close> pushes the tags onto the tags that the construct advertises.
\<close>

definition makeLinkable :: "string list \<Rightarrow> addr \<Rightarrow> state \<Rightarrow> state" where
  "makeLinkable tags this st =
     st\<lparr> constructs := (constructs st)(this := (constructs st this)
          \<lparr> linkableTargets := linkableTargets (constructs st this) @ tags \<rparr>) \<rparr>"

definition Root_constructor :: "addr \<Rightarrow> state \<Rightarrow> (error + unit) \<times> state" where
  "Root_constructor this st =
     (case Construct_constructor this Undefined Undefined (constructs st) of
        Inl e \<Rightarrow> (Inl e, st)
      | Inr h \<Rightarrow> (Inr (), st\<lparr> constructs := h \<rparr>))"

text \<open>\<open>this.addProperty(name, prop)\<close> on the resource at \<open>this\<close>.\<close>

definition addProperty :: "string \<Rightarrow> propref \<Rightarrow> addr \<Rightarrow> state \<Rightarrow> (error + unit) \<times> state" where
  "addProperty name prop this st =
     (case resource (constructs st this) of
        None \<Rightarrow> (Inl NotCallableError, st)
      | Some r \<Rightarrow>
          (case Resource_addProperty name prop r of
             Inl e \<Rightarrow> (Inl e, st)
           | Inr r1 \<Rightarrow>
               (Inr (), st\<lparr> constructs := (constructs st)(this := (constructs st this)
                             \<lparr> resource := Some r1 \<rparr>) \<rparr>)))"

section \<open>Example stores\<close>

text \<open>
  The store before anything is built. Every address holds a default object; the
  singleton \<open>Scope.FLOATING\<close> is the root at address 0.
\<close>

definition empty_state :: state where
  "empty_state =
     \<lparr> constructs = (\<lambda>_. new_construct Undefined Undefined),
       scalars = (\<lambda>_. \<lparr> scalar_value = JUndefined, scalar_observers = [] \<rparr>),
       collections = (\<lambda>_. \<lparr> collection_value = [], collection_observers = [] \<rparr>),
       linkrels = (\<lambda>_. \<lparr> targets = [], link_value = None, link_observers = [] \<rparr>),
       calls = [],
       floating = 0 \<rparr>"

text \<open>
  \<open>new Construct(scope, id)\<close> on the whole store, and a sequence of constructor
  calls that stops at the first one that throws.
\<close>

definition Construct_new ::
  "addr \<Rightarrow> addr nullable \<Rightarrow> string nullable \<Rightarrow> state \<Rightarrow> (error + unit) \<times> state" where
  "Construct_new this sc i st =
     (case Construct_constructor this sc i (constructs st) of
        Inl e \<Rightarrow> (Inl e, st)
      | Inr h \<Rightarrow> (Inr (), st\<lparr> constructs := h \<rparr>))"

fun run_steps :: "(state \<Rightarrow> (error + unit) \<times> state) list \<Rightarrow> state \<Rightarrow> (error + unit) \<times> state" where
  "run_steps [] st = (Inr (), st)"
| "run_steps (step # steps) st =
     (case step st of
        (Inl e, st1) \<Rightarrow> (Inl e, st1)
      | (Inr _, st1) \<Rightarrow> run_steps steps st1)"

text \<open>
  A floating node \<open>x\<close> at address 1, a parent at address 2 that already has a child
  \<open>x\<close> (address 3), and a parent at address 4 without children.
\<close>

definition reparent_example :: cstore where
  "reparent_example =
     (\<lambda>_. new_construct Undefined Undefined)
       (0 := (new_construct Undefined Undefined)\<lparr> children := [(''x'', 1)] \<rparr>,
        1 := new_construct (Is 0) (Is ''x''),
        2 := (new_construct Undefined Undefined)\<lparr> children := [(''x'', 3)] \<rparr>,
        3 := new_construct (Is 2) (Is ''x''))"

section \<open>Well-formed stores of scalars\<close>

text \<open>
  The scalars that are set when a scalar fires are the targets of the \<open>Derive\<close>
  closures among its observers. Such a closure is created by the constructor of the
  derived property, which is then a new object: in a store built by the library
  every subscription leads from an older scalar to a newer one, and a derived
  property is subscribed exactly once. With addresses given out in the order of
  creation and all of them below \<open>N\<close>, this is \<open>creation_ordered N\<close> and
  \<open>single_subscription\<close>.
\<close>

fun derive_targets :: "observer list \<Rightarrow> addr list" where
  "derive_targets [] = []"
| "derive_targets (Derive d tx # os) = d # derive_targets os"
| "derive_targets (Probe k # os) = derive_targets os"

definition subscribers :: "state \<Rightarrow> addr \<Rightarrow> addr list" where
  "subscribers st a = derive_targets (scalar_observers (scalars st a))"

definition creation_ordered :: "nat \<Rightarrow> state \<Rightarrow> bool" where
  "creation_ordered N st = (\<forall>a d. d \<in> set (subscribers st a) \<longrightarrow> a < d \<and> d < N)"

definition single_subscription :: "state \<Rightarrow> bool" where
  "single_subscription st =
     ((\<forall>a. distinct (subscribers st a))
      \<and> (\<forall>a b d. d \<in> set (subscribers st a) \<and> d \<in> set (subscribers st b) \<longrightarrow> a = b))"

text \<open>Two stores that differ only in the values of scalars and in the record of calls.\<close>

definition same_shape :: "state \<Rightarrow> state \<Rightarrow> bool" where
  "same_shape st st' =
     (constructs st' = constructs st \<and> collections st' = collections st
      \<and> linkrels st' = linkrels st \<and> floating st' = floating st
      \<and> (\<forall>b. scalar_observers (scalars st' b) = scalar_observers (scalars st b)))"

definition edges :: "state \<Rightarrow> (addr \<times> addr) set" where
  "edges st = {(a, d). d \<in> set (subscribers st a)}"

text \<open>\<open>s.set(v1); s.set(v2); ...\<close>, one call after the other.\<close>

fun ScalarProperty_sets :: "nat \<Rightarrow> addr \<Rightarrow> val list \<Rightarrow> state \<Rightarrow> state option" where
  "ScalarProperty_sets n s [] st = Some st"
| "ScalarProperty_sets n s (v # vs) st =
     (case ScalarProperty_set n s v st of
        None \<Rightarrow> None
      | Some st1 \<Rightarrow> ScalarProperty_sets n s vs st1)"

text \<open>The transform of the repository's test, \<open>(x) => x * 2\<close>, and its scalar set to 3.\<close>

definition double :: "val \<Rightarrow> val" where
  "double x = (case x of JNum k \<Rightarrow> JNum (k * 2) | _ \<Rightarrow> JUndefined)"

definition derived_example :: state where
  "derived_example = ScalarProperty_constructor 0 (JNum 3) empty_state"

text \<open>A link relationship without a value, observed by one outside callback.\<close>

definition link_example :: state where
  "link_example =
     empty_state\<lparr> linkrels := (linkrels empty_state)
       (0 := \<lparr> targets = [''AWS::S3::Bucket''], link_value = None, link_observers = [Probe 7] \<rparr>) \<rparr>"

text \<open>
  A resource class written against \<open>class Resource\<close>: its constructor calls the
  constructor of \<open>Resource\<close> with the type \<open>S3::Bucket\<close>, advertises that type as its
  tag and declares a scalar \<open>BucketName\<close> and a collection \<open>Tags\<close>, both without a
  value. The steps build a root at address 1 and such a resource with the id
  \<open>Bucket\<close> at address 2 under it; its properties are the scalar 0 and the
  collection 0. \<open>resource_example\<close> is the store after these steps.
\<close>

definition bucket_steps :: "(state \<Rightarrow> (error + unit) \<times> state) list" where
  "bucket_steps =
     [Root_constructor 1,
      Resource_constructor 2 1 ''Bucket'' ''S3::Bucket'',
      (\<lambda>st. (Inr (), makeLinkable [''S3::Bucket''] 2 st)),
      (\<lambda>st. addProperty ''BucketName'' (ScalarRef 0) 2 (ScalarProperty_constructor 0 JUndefined st)),
      (\<lambda>st. addProperty ''Tags'' (CollectionRef 0) 2 (CollectionProperty_constructor 0 st))]"

definition resource_example :: state where
  "resource_example =
     empty_state\<lparr> constructs := (constructs empty_state)
       (1 := (new_construct Undefined Undefined)\<lparr> children := [(''Bucket'', 2)] \<rparr>,
        2 := \<lparr> scope = Is 1, ident = Is ''Bucket'', children = [],
               linkableTargets = [''S3::Bucket''],
               resource = Some \<lparr> resourceType = ''S3::Bucket'',
                 properties = [(''BucketName'', ScalarRef 0), (''Tags'', CollectionRef 0)] \<rparr> \<rparr>) \<rparr>"

text \<open>
  The scenario of C8: the resource above, then \<open>link\<close> on it with a scalar tweak for
  \<open>BucketName\<close> and a collection tweak for \<open>Tags\<close>, then \<open>renderAll\<close> of the root.
  The document that the specification expects, and the document that the code
  yields.
\<close>

definition bucket_tweaks :: "ilinkable option list" where
  "bucket_tweaks =
     [Some (ScalarTweak ''S3::Bucket'' ''BucketName'' (JStr ''MyBucket'')),
      Some (CollectionTweak ''S3::Bucket'' ''Tags''
              (JObj [(''Key'', JStr ''CostCenter''), (''Value'', JStr ''1234'')]))]"

definition bucket_scenario :: "string comparator \<Rightarrow> nat \<Rightarrow> (error + val) option" where
  "bucket_scenario lc n =
     (case run_steps bucket_steps empty_state of
        (Inl e, st1) \<Rightarrow> Some (Inl e)
      | (Inr _, st1) \<Rightarrow>
          (case link n bucket_tweaks 2 st1 of
             None \<Rightarrow> None
           | Some (Inl e, st2) \<Rightarrow> Some (Inl e)
           | Some (Inr _, st2) \<Rightarrow> renderAll lc n st2 1))"

definition bucket_document_claimed :: val where
  "bucket_document_claimed =
     JObj [(''Bucket'',
       JObj [(''type'', JStr ''S3::Bucket''),
             (''properties'',
               JObj [(''BucketName'', JStr ''MyBucket''),
                     (''Tags'', JArr [JObj [(''Key'', JStr ''CostCenter''), (''Value'', JStr ''1234'')]])])])]"

definition bucket_document :: val where
  "bucket_document =
     JObj [(''Bucket'',
       JObj [(''Type'', JStr ''S3::Bucket''),
             (''Properties'',
               JObj [(''BucketName'', JStr ''MyBucket''),
                     (''Tags'', JArr [JObj [(''Key'', JStr ''CostCenter''), (''Value'', JStr ''1234'')]])])])]"

text \<open>A tree with a root at address 1, two branches and a resource in each.\<close>

definition node :: "addr \<Rightarrow> string \<Rightarrow> (string \<times> addr) list \<Rightarrow> construct" where
  "node sc i cs =
     \<lparr> scope = Is sc, ident = Is i, children = cs, linkableTargets = [], resource = None \<rparr>"

definition resource_node :: "addr \<Rightarrow> string \<Rightarrow> string \<Rightarrow> construct" where
  "resource_node sc i rt =
     \<lparr> scope = Is sc, ident = Is i, children = [], linkableTargets = [],
       resource = Some \<lparr> resourceType = rt, properties = [] \<rparr> \<rparr>"

text \<open>
  Two resources whose paths differ, \<open>a/\<close>, \<open>b\<close> and \<open>a\<close>, \<open>/b\<close>, while the paths
  joined with a slash and the logical ids are the same. The children of the root
  are a parameter, so that the same tree can be built in either order of insertion.
\<close>

definition tie_example :: "(string \<times> addr) list \<Rightarrow> state" where
  "tie_example root_children =
     empty_state\<lparr> constructs := (constructs empty_state)
       (1 := (new_construct Undefined Undefined)\<lparr> children := root_children \<rparr>,
        2 := node 1 ''a/'' [(''b'', 4)],
        3 := node 1 ''a'' [(''/b'', 5)],
        4 := resource_node 2 ''b'' ''T1'',
        5 := resource_node 3 ''/b'' ''T2'') \<rparr>"

text \<open>A collection without elements and without observers.\<close>

definition collection_example :: state where
  "collection_example = CollectionProperty_constructor 0 empty_state"

section \<open>The nodes of a tree, level by level\<close>

text \<open>
  The children of a node in the order in which \<open>Object.values\<close> lists them, the
  nodes at a given depth below a node, from left to right, and the resources
  among the nodes above the depth \<open>d\<close>, in breadth-first order. A tree whose level
  \<open>d\<close> is empty has all its nodes above that depth.
\<close>

definition kids :: "cstore \<Rightarrow> addr \<Rightarrow> addr list" where
  "kids h a = map snd (own_order (children (h a)))"

fun level :: "cstore \<Rightarrow> nat \<Rightarrow> addr \<Rightarrow> addr list" where
  "level h 0 sc = [sc]"
| "level h (Suc k) sc = concat (map (kids h) (level h k sc))"

definition resources_below :: "cstore \<Rightarrow> nat \<Rightarrow> addr \<Rightarrow> addr list" where
  "resources_below h d sc =
     filter (\<lambda>a. resource (h a) \<noteq> None) (concat (map (\<lambda>k. level h k sc) [0..<d]))"

section \<open>Facts about the construct tree\<close>

lemma fold_remove_child:
  "fold (\<lambda>(k, c) acc. if c = this then AList.delete k acc else acc) xs acc =
     filter (\<lambda>(k, c). (k, this) \<notin> set xs) acc"
proof (induction xs arbitrary: acc)
  case Nil
  then show ?case by simp
next
  case (Cons x xs)
  obtain k c where x: "x = (k, c)" by (cases x)
  show ?case
    by (auto simp: x Cons.IH AList.delete_eq intro!: filter_cong)
qed

lemma remove_child_filter:
  "remove_child this cs = filter (\<lambda>(k, c). (k, this) \<notin> set cs) cs"
  by (simp add: remove_child_def fold_remove_child)

lemma remove_child_absent: "this \<notin> snd ` set (remove_child this cs)"
  by (auto simp: remove_child_filter)

lemma remove_child_distinct:
  "distinct (map fst cs) \<Longrightarrow> remove_child this cs = filter (\<lambda>(k, c). c \<noteq> this) cs"
  unfolding remove_child_filter
  by (rule filter_cong) (auto dest: eq_key_imp_eq_value)

text \<open>
  C1, as the code has it. \<open>reparentTo\<close> on a node with a parent \<open>p\<close> and a non-empty
  id \<open>s\<close> (every node under the floating scope is one) first removes the node from
  the children of \<open>p\<close>. It then fails with \<open>ReparentConflictError\<close> exactly when the
  new parent, after that removal, has a child with the id \<open>s\<close>. On that failure the
  scope of the node is still \<open>p\<close> and no construct other than \<open>p\<close> has changed, but
  the node is no longer among the children of \<open>p\<close>. Otherwise the call succeeds: the
  node is the child \<open>s\<close> of the new parent, its scope is the new parent, and it is
  not among the children of a different old parent.
\<close>

theorem reparentTo_removes_then_checks:
  assumes "scope (h this) = Is p" and "ident (h this) = Is s" and "s \<noteq> []"
  shows "let rest = (if newParent = p then remove_child this (children (h p))
                     else children (h newParent))
         in (map_of rest s \<noteq> None \<longrightarrow>
               (\<exists>h'. reparentTo this newParent h = (Inl ReparentConflictError, h')
                  \<and> scope (h' this) = Is p
                  \<and> children (h' newParent) = rest
                  \<and> this \<notin> snd ` set (children (h' p))
                  \<and> (\<forall>a. a \<noteq> p \<longrightarrow> h' a = h a)))
          \<and> (map_of rest s = None \<longrightarrow>
               (\<exists>h'. reparentTo this newParent h = (Inr (), h')
                  \<and> scope (h' this) = Is newParent
                  \<and> children (h' newParent) = AList.update s this rest
                  \<and> map_of (children (h' newParent)) s = Some this
                  \<and> (newParent \<noteq> p \<longrightarrow> this \<notin> snd ` set (children (h' p)))
                  \<and> (\<forall>a. a \<noteq> p \<and> a \<noteq> newParent \<and> a \<noteq> this \<longrightarrow> h' a = h a)))"
  using assms
  by (auto simp: reparentTo_def Let_def remove_child_absent update_conv')

lemma reparent_example_fails:
  "reparentTo 1 2 reparent_example =
     (Inl ReparentConflictError, reparent_example(0 := (reparent_example 0)\<lparr> children := [] \<rparr>))"
  by (simp add: reparentTo_def reparent_example_def new_construct_def remove_child_def Let_def)

text \<open>
  The theorem at the example store: moving the floating node under the parent that
  has a child \<open>x\<close> fails and leaves the floating scope without the node; moving it
  under the parent without children succeeds.
\<close>

theorem reparentTo_removes_then_checks_witness:
  "fst (reparentTo 1 2 reparent_example) = Inl ReparentConflictError
   \<and> scope (snd (reparentTo 1 2 reparent_example) 1) = Is 0
   \<and> 1 \<notin> snd ` set (children (snd (reparentTo 1 2 reparent_example) 0))
   \<and> fst (reparentTo 1 4 reparent_example) = Inr ()
   \<and> scope (snd (reparentTo 1 4 reparent_example) 1) = Is 4
   \<and> map_of (children (snd (reparentTo 1 4 reparent_example) 4)) ''x'' = Some 1"
proof -
  have a: "scope (reparent_example 1) = Is 0" "ident (reparent_example 1) = Is ''x''"
    and c2: "map_of (children (reparent_example 2)) ''x'' = Some 3"
    and c4: "map_of (children (reparent_example 4)) ''x'' = None"
    by (simp_all add: reparent_example_def new_construct_def)
  have x: "''x'' \<noteq> []" by simp
  from reparentTo_removes_then_checks [of reparent_example 1 0 "''x''" 2] a x c2
  obtain h2 where "reparentTo 1 2 reparent_example = (Inl ReparentConflictError, h2)"
    and "scope (h2 1) = Is 0" and "1 \<notin> snd ` set (children (h2 0))"
    by (auto simp: Let_def)
  moreover
  from reparentTo_removes_then_checks [of reparent_example 1 0 "''x''" 4] a x c4
  obtain h4 where "reparentTo 1 4 reparent_example = (Inr (), h4)"
    and "scope (h4 1) = Is 4" and "map_of (children (h4 4)) ''x'' = Some 1"
    by (auto simp: Let_def)
  ultimately show ?thesis by simp
qed

text \<open>
  C1 as the specification states it does not hold: at the example store the call
  fails with \<open>ReparentConflictError\<close>, and the node, which was the child \<open>x\<close> of the
  floating scope before the call, is not a child of the floating scope after it.
\<close>

theorem reparentTo_not_atomic:
  "fst (reparentTo 1 2 reparent_example) = Inl ReparentConflictError
   \<and> scope (reparent_example 1) = Is 0
   \<and> map_of (children (reparent_example 0)) ''x'' = Some 1
   \<and> children (snd (reparentTo 1 2 reparent_example) 0) = []
   \<and> snd (reparentTo 1 2 reparent_example) \<noteq> reparent_example"
proof -
  have c0: "children (reparent_example 0) = [(''x'', 1)]"
    and s1: "scope (reparent_example 1) = Is 0"
    by (simp_all add: reparent_example_def new_construct_def)
  have "children (snd (reparentTo 1 2 reparent_example) 0) = []"
    unfolding reparent_example_fails by simp
  moreover from this have "snd (reparentTo 1 2 reparent_example) \<noteq> reparent_example"
    using c0 by auto
  moreover have "fst (reparentTo 1 2 reparent_example) = Inl ReparentConflictError"
    unfolding reparent_example_fails by simp
  ultimately show ?thesis using c0 s1 by simp
qed

text \<open>
  C3 at the inputs where exactly one of scope and id is absent. The constructor
  compares both arguments with \<open>null\<close>; an absent argument is \<open>undefined\<close>, so the
  test is false and no error is raised: the node is created without being
  registered anywhere.
\<close>

theorem Construct_constructor_one_absent:
  "Construct_constructor this Undefined (Is ''x'') h
     = Inr (h(this := new_construct Undefined (Is ''x'')))
   \<and> Construct_constructor this (Is p) Undefined h
     = Inr (h(this := new_construct (Is p) Undefined))"
  by (simp add: Construct_constructor_def)

lemma Construct_constructor_root:
  "Construct_constructor this Undefined Undefined h
     = Inr (h(this := new_construct Undefined Undefined))"
  by (simp add: Construct_constructor_def)

lemma Construct_constructor_child:
  assumes "s \<noteq> []" and "p \<noteq> this"
  shows "Construct_constructor this (Is p) (Is s) h =
     (if has_member (children (h p)) s then Inl DuplicateIdError
      else Inr (h(this := new_construct (Is p) (Is s),
                 p := (h p)\<lparr> children := AList.update s this (children (h p)) \<rparr>)))"
  using assms by (simp add: Construct_constructor_def Let_def)

lemma Construct_constructor_null:
  "Construct_constructor this Null (Is s) h = Inl InvalidIdentityError"
  "Construct_constructor this (Is p) Null h = Inl InvalidIdentityError"
  by (simp_all add: Construct_constructor_def)

section \<open>Facts about observers\<close>

lemma call_observer_Derive:
  "call_observer n (Derive d tx) x st =
     (if n = 0 then None else ScalarProperty_set (n - 1) d (tx x) st)"
  by (cases n) simp_all

lemma derive_targets_append [simp]:
  "derive_targets (xs @ ys) = derive_targets xs @ derive_targets ys"
  by (induction xs rule: derive_targets.induct) simp_all

text \<open>Firing changes the values of scalars and the record of calls, nothing else.\<close>

lemma same_shape_refl [simp]: "same_shape st st"
  by (simp add: same_shape_def)

lemma same_shape_trans: "same_shape a b \<Longrightarrow> same_shape b c \<Longrightarrow> same_shape a c"
  by (simp add: same_shape_def)

lemma fire_shape:
  "ScalarProperty_set n a x st = Some st' \<Longrightarrow> same_shape st st'"
  "fire n os x st = Some st' \<Longrightarrow> same_shape st st'"
  "call_observer n ob x st = Some st' \<Longrightarrow> same_shape st st'"
proof (induction n a x st and n os x st and n ob x st arbitrary: st' and st' and st'
    rule: ScalarProperty_set_fire_call_observer.induct)
  case (1 n this x st)
  from "1.prems" have "same_shape
      (st\<lparr> scalars := (scalars st)(this := (scalars st this)\<lparr> scalar_value := x \<rparr>) \<rparr>) st'"
    by (intro "1.IH") (simp_all add: ScalarProperty_set.simps Let_def)
  then show ?case by (simp add: same_shape_def)
next
  case (3 n obs rest x st)
  then show ?case by (auto split: option.splits intro: same_shape_trans)
qed (auto simp: same_shape_def)

lemma same_shape_subscribers: "same_shape st st' \<Longrightarrow> subscribers st' = subscribers st"
  by (auto simp: same_shape_def subscribers_def)

lemma same_shape_ordered:
  "same_shape st st' \<Longrightarrow> creation_ordered N st' = creation_ordered N st"
  by (simp add: creation_ordered_def same_shape_subscribers)

lemma same_shape_single:
  "same_shape st st' \<Longrightarrow> single_subscription st' = single_subscription st"
  by (simp add: single_subscription_def same_shape_subscribers)

text \<open>Enough fuel: every chain of derived properties climbs and stays below \<open>N\<close>.\<close>

lemma fire_returns:
  "creation_ordered N st \<Longrightarrow> N \<le> n + a + 1 \<Longrightarrow> \<exists>st'. ScalarProperty_set n a x st = Some st'"
  "creation_ordered N st \<Longrightarrow> \<forall>d \<in> set (derive_targets os). d < N \<and> N \<le> n + d \<Longrightarrow>
     \<exists>st'. fire n os x st = Some st'"
  "creation_ordered N st \<Longrightarrow> \<forall>d \<in> set (derive_targets [ob]). d < N \<and> N \<le> n + d \<Longrightarrow>
     \<exists>st'. call_observer n ob x st = Some st'"
proof (induction n a x st and n os x st and n ob x st
    rule: ScalarProperty_set_fire_call_observer.induct)
  case (1 n this x st)
  let ?st1 = "st\<lparr> scalars := (scalars st)(this := (scalars st this)\<lparr> scalar_value := x \<rparr>) \<rparr>"
  have sh: "same_shape st ?st1" by (simp add: same_shape_def)
  have ord: "creation_ordered N ?st1" using "1.prems"(1) sh by (simp add: same_shape_ordered)
  have "\<forall>d \<in> set (derive_targets (scalar_observers (scalars ?st1 this))). d < N \<and> N \<le> n + d"
  proof
    fix d assume "d \<in> set (derive_targets (scalar_observers (scalars ?st1 this)))"
    then have "d \<in> set (subscribers st this)" by (simp add: subscribers_def)
    with "1.prems"(1) have "this < d \<and> d < N" by (simp add: creation_ordered_def)
    with "1.prems"(2) show "d < N \<and> N \<le> n + d" by simp
  qed
  from "1.IH"[OF refl ord this] show ?case by (simp add: ScalarProperty_set.simps Let_def)
next
  case (2 n x st)
  then show ?case by simp
next
  case (3 n obs rest x st)
  from "3.prems" have "\<forall>d \<in> set (derive_targets [obs]). d < N \<and> N \<le> n + d"
    by (cases obs) auto
  from "3.IH"(1)[OF "3.prems"(1) this] obtain st1 where c: "call_observer n obs x st = Some st1"
    by blast
  have ord: "creation_ordered N st1"
    using fire_shape(3)[OF c] "3.prems"(1) by (simp add: same_shape_ordered)
  from "3.prems" have "\<forall>d \<in> set (derive_targets rest). d < N \<and> N \<le> n + d"
    by (cases obs) auto
  from "3.IH"(2)[OF c ord this] show ?case by (simp add: c)
next
  case (4 n k x st)
  then show ?case by simp
next
  case (5 d tx x st)
  then show ?case by auto
next
  case (6 n d tx x st)
  then show ?case by simp
qed

text \<open>What a call leaves alone: the scalars that no chain of subscriptions reaches.\<close>

lemma same_shape_edges: "same_shape st st' \<Longrightarrow> edges st' = edges st"
  by (simp add: edges_def same_shape_subscribers)

lemma fire_frame:
  "ScalarProperty_set n a x st = Some st' \<Longrightarrow> (a, b) \<notin> (edges st)\<^sup>* \<Longrightarrow>
     scalars st' b = scalars st b"
  "fire n os x st = Some st' \<Longrightarrow> \<forall>d \<in> set (derive_targets os). (d, b) \<notin> (edges st)\<^sup>* \<Longrightarrow>
     scalars st' b = scalars st b"
  "call_observer n ob x st = Some st' \<Longrightarrow>
     \<forall>d \<in> set (derive_targets [ob]). (d, b) \<notin> (edges st)\<^sup>* \<Longrightarrow>
     scalars st' b = scalars st b"
proof (induction n a x st and n os x st and n ob x st arbitrary: st' and st' and st'
    rule: ScalarProperty_set_fire_call_observer.induct)
  case (1 n this x st)
  let ?st1 = "st\<lparr> scalars := (scalars st)(this := (scalars st this)\<lparr> scalar_value := x \<rparr>) \<rparr>"
  have sh: "same_shape st ?st1" by (simp add: same_shape_def)
  have f: "fire n (scalar_observers (scalars ?st1 this)) x ?st1 = Some st'"
    using "1.prems"(1) by (simp add: ScalarProperty_set.simps Let_def)
  have "\<forall>d \<in> set (derive_targets (scalar_observers (scalars ?st1 this))). (d, b) \<notin> (edges ?st1)\<^sup>*"
  proof
    fix d assume "d \<in> set (derive_targets (scalar_observers (scalars ?st1 this)))"
    then have "(this, d) \<in> edges st" by (simp add: edges_def subscribers_def)
    with "1.prems"(2) show "(d, b) \<notin> (edges ?st1)\<^sup>*"
      unfolding same_shape_edges[OF sh] by (meson converse_rtrancl_into_rtrancl)
  qed
  from "1.IH"[OF refl f this] have "scalars st' b = scalars ?st1 b" .
  moreover from "1.prems"(2) have "this \<noteq> b" by auto
  ultimately show ?case by simp
next
  case (2 n x st)
  then show ?case by simp
next
  case (3 n obs rest x st)
  from "3.prems"(1) obtain st1 where c: "call_observer n obs x st = Some st1"
    and f: "fire n rest x st1 = Some st'"
    by (auto split: option.splits)
  have e: "edges st1 = edges st" using fire_shape(3)[OF c] by (rule same_shape_edges)
  from "3.prems"(2) have "\<forall>d \<in> set (derive_targets [obs]). (d, b) \<notin> (edges st)\<^sup>*"
    by (cases obs) auto
  from "3.IH"(1)[OF c this] have 1: "scalars st1 b = scalars st b" .
  from "3.prems"(2) have "\<forall>d \<in> set (derive_targets rest). (d, b) \<notin> (edges st1)\<^sup>*"
    unfolding e by (cases obs) auto
  from "3.IH"(2)[OF c f this] 1 show ?case by simp
next
  case (4 n k x st)
  then show ?case by auto
next
  case (5 d tx x st)
  then show ?case by simp
next
  case (6 n d tx x st)
  then show ?case by simp
qed

lemma ordered_reach:
  assumes "creation_ordered N st" and "(a, b) \<in> (edges st)\<^sup>*"
  shows "a \<le> b"
  using assms(2)
proof (induction rule: rtrancl_induct)
  case base
  show ?case by simp
next
  case (step y z)
  from step.hyps(2) assms(1) have "y < z" by (simp add: edges_def creation_ordered_def)
  with step.IH show ?case by simp
qed

text \<open>After \<open>set\<close> returns, the scalar holds the value that was set.\<close>

lemma set_stores:
  assumes "creation_ordered N st" and "ScalarProperty_set n a x st = Some st'"
  shows "scalar_value (scalars st' a) = x"
proof -
  let ?st1 = "st\<lparr> scalars := (scalars st)(a := (scalars st a)\<lparr> scalar_value := x \<rparr>) \<rparr>"
  have sh: "same_shape st ?st1" by (simp add: same_shape_def)
  have ord: "creation_ordered N ?st1" using assms(1) sh by (simp add: same_shape_ordered)
  have f: "fire n (scalar_observers (scalars ?st1 a)) x ?st1 = Some st'"
    using assms(2) by (simp add: ScalarProperty_set.simps Let_def)
  have "\<forall>d \<in> set (derive_targets (scalar_observers (scalars ?st1 a))). (d, a) \<notin> (edges ?st1)\<^sup>*"
  proof
    fix d assume d: "d \<in> set (derive_targets (scalar_observers (scalars ?st1 a)))"
    then have "d \<in> set (subscribers ?st1 a)" by (simp add: subscribers_def)
    with ord have "a < d" by (simp add: creation_ordered_def)
    with ordered_reach[OF ord] show "(d, a) \<notin> (edges ?st1)\<^sup>*" by fastforce
  qed
  from fire_frame(2)[OF f this] show ?thesis by simp
qed

lemma fire_append:
  "fire n (xs @ ys) x st = (case fire n xs x st of None \<Rightarrow> None | Some st1 \<Rightarrow> fire n ys x st1)"
  by (induction xs arbitrary: st) (auto split: option.splits)

text \<open>After \<open>set\<close> on the source returns, a derived property holds the transform of the value.\<close>

lemma set_recomputes:
  assumes ord: "creation_ordered N st" and single: "single_subscription st"
    and obs: "Derive d f \<in> set (scalar_observers (scalars st s))"
    and set: "ScalarProperty_set n s v st = Some st'"
  shows "scalar_value (scalars st' d) = f v"
proof -
  let ?st1 = "st\<lparr> scalars := (scalars st)(s := (scalars st s)\<lparr> scalar_value := v \<rparr>) \<rparr>"
  have sh: "same_shape st ?st1" by (simp add: same_shape_def)
  have os: "scalar_observers (scalars ?st1 s) = scalar_observers (scalars st s)" by simp
  from obs obtain pre post where split: "scalar_observers (scalars st s) = pre @ Derive d f # post"
    by (meson split_list)
  have "fire n (pre @ [Derive d f] @ post) v ?st1 = Some st'"
    using set by (simp add: ScalarProperty_set.simps Let_def split)
  then obtain sa sb where pre: "fire n pre v ?st1 = Some sa"
    and mid: "call_observer n (Derive d f) v sa = Some sb"
    and post: "fire n post v sb = Some st'"
    by (auto simp: fire_append split: option.splits)
  have sh_a: "same_shape st sa" using sh fire_shape(2)[OF pre] by (rule same_shape_trans)
  have sh_b: "same_shape st sb" using sh_a fire_shape(3)[OF mid] by (rule same_shape_trans)
  have "0 < n" using mid by (cases n) auto
  then have "ScalarProperty_set (n - 1) d (f v) sa = Some sb"
    using mid by (simp add: call_observer_Derive)
  moreover have "creation_ordered N sa" using ord sh_a by (simp add: same_shape_ordered)
  ultimately have stored: "scalar_value (scalars sb d) = f v" by (rule set_stores[rotated])
  have subs: "subscribers st s = derive_targets pre @ d # derive_targets post"
    by (simp add: subscribers_def split)
  have dist: "distinct (subscribers st s)" using single by (simp add: single_subscription_def)
  have "\<forall>c \<in> set (derive_targets post). (c, d) \<notin> (edges sb)\<^sup>*"
  proof
    fix c assume c: "c \<in> set (derive_targets post)"
    show "(c, d) \<notin> (edges sb)\<^sup>*"
    proof
      assume "(c, d) \<in> (edges sb)\<^sup>*"
      then have r: "(c, d) \<in> (edges st)\<^sup>*" by (simp add: same_shape_edges[OF sh_b])
      from c dist subs have "c \<noteq> d" by auto
      with r obtain e where ce: "(c, e) \<in> (edges st)\<^sup>*" and ed: "(e, d) \<in> edges st"
        by (meson rtranclE)
      from ed have "d \<in> set (subscribers st e)" by (simp add: edges_def)
      moreover have "d \<in> set (subscribers st s)" by (simp add: subs)
      ultimately have "e = s" using single by (auto simp: single_subscription_def)
      with ce ordered_reach[OF ord] have "c \<le> s" by blast
      moreover from c subs ord have "s < c" by (simp add: creation_ordered_def)
      ultimately show False by simp
    qed
  qed
  from fire_frame(2)[OF post this] stored show ?thesis by simp
qed

lemma sets_recompute:
  assumes "creation_ordered N st" and "single_subscription st"
    and "Derive d f \<in> set (scalar_observers (scalars st s))" and "N \<le> n + s + 1"
  shows "\<exists>st'. ScalarProperty_sets n s (vs @ [v]) st = Some st' \<and> scalar_value (scalars st' d) = f v"
  using assms
proof (induction vs arbitrary: st)
  case Nil
  from fire_returns(1)[OF Nil(1) Nil(4)] obtain st' where s: "ScalarProperty_set n s v st = Some st'"
    by blast
  with set_recomputes[OF Nil(1) Nil(2) Nil(3) s] show ?case by simp
next
  case (Cons w ws)
  from fire_returns(1)[OF Cons.prems(1) Cons.prems(4)]
  obtain st1 where s: "ScalarProperty_set n s w st = Some st1" by blast
  have sh: "same_shape st st1" using s by (rule fire_shape(1))
  have "creation_ordered N st1" "single_subscription st1"
    using Cons.prems(1,2) sh by (simp_all add: same_shape_ordered same_shape_single)
  moreover have "Derive d f \<in> set (scalar_observers (scalars st1 s))"
    using Cons.prems(3) sh by (simp add: same_shape_def)
  ultimately show ?case using Cons.IH[of st1] Cons.prems(4) by (simp add: s)
qed

text \<open>
  C7. In a well-formed store with all addresses in use below \<open>N\<close>, let the derived
  property be constructed at the fresh address \<open>d\<close> from the scalar \<open>s\<close> and the
  transform \<open>f\<close>, with a bound on the depth of calls above \<open>d\<close>. The constructor
  returns; if \<open>s\<close> holds a value the derived property holds its transform at once,
  otherwise it holds none. After every call of a sequence of calls \<open>s.set(v)\<close> the
  call has returned and the derived property holds \<open>f v\<close> for the value set last.
\<close>

theorem derived_recompute:
  assumes ord: "creation_ordered N st" and single: "single_subscription st"
    and s: "s < N" and d: "N \<le> d" and fuel: "d < n"
  shows "\<exists>st1. DerivedProperty_constructor n d (PropertyObs (ScalarRef s)) f st = Some st1
           \<and> scalar_value (scalars st1 d) =
               (if scalar_value (scalars st s) = JUndefined then JUndefined
                else f (scalar_value (scalars st s)))
           \<and> (\<forall>vs v. \<exists>st2. ScalarProperty_sets n s (vs @ [v]) st1 = Some st2
                        \<and> scalar_value (scalars st2 d) = f v)"
proof -
  let ?x = "scalar_value (scalars st s)"
  define sp where "sp = ScalarProperty_push s (Derive d f) (ScalarProperty_constructor d JUndefined st)"
  have sd: "s \<noteq> d" using s d by simp
  have subs: "subscribers sp a =
      (if a = d then [] else if a = s then subscribers st s @ [d] else subscribers st a)" for a
    using sd by (simp add: sp_def subscribers_def ScalarProperty_push_def ScalarProperty_constructor_def)
  have old: "c \<in> set (subscribers st a) \<Longrightarrow> a < c \<and> c < N" for a c
    using ord by (simp add: creation_ordered_def)
  have old': "c \<in> set (subscribers st a) \<Longrightarrow> c < Suc d" for a c
    using old[of c a] d by simp
  have ord_p: "creation_ordered (Suc d) sp"
    unfolding creation_ordered_def using old old' s d by (auto simp: subs split: if_splits)
  have fresh: "d \<notin> set (subscribers st a)" for a using old[of d a] d by auto
  have single_p: "single_subscription sp"
    unfolding single_subscription_def
  proof (intro conjI allI impI)
    fix a show "distinct (subscribers sp a)"
      using single fresh by (simp add: subs single_subscription_def)
  next
    fix a b c assume "c \<in> set (subscribers sp a) \<and> c \<in> set (subscribers sp b)"
    moreover have "x \<in> set (subscribers st a) \<Longrightarrow> x \<in> set (subscribers st b) \<Longrightarrow> a = b" for x
      using single unfolding single_subscription_def by blast
    ultimately show "a = b"
      using fresh unfolding subs by (auto split: if_splits)
  qed
  have obs_p: "Derive d f \<in> set (scalar_observers (scalars sp s))"
    by (simp add: sp_def ScalarProperty_push_def)
  have val_p: "scalar_value (scalars sp s) = ?x" "scalar_value (scalars sp d) = JUndefined"
    "scalar_observers (scalars sp d) = []"
    using sd by (simp_all add: sp_def ScalarProperty_push_def ScalarProperty_constructor_def)
  have ctor: "DerivedProperty_constructor n d (PropertyObs (ScalarRef s)) f st =
      (if ?x \<noteq> JUndefined then call_observer n (Derive d f) ?x sp else Some sp)"
    using val_p(1)
    by (simp add: DerivedProperty_constructor_def ScalarProperty_addObserver_def
        Property_addObserver_def ScalarProperty_value_def Let_def sp_def)
  obtain st1 where st1: "DerivedProperty_constructor n d (PropertyObs (ScalarRef s)) f st = Some st1"
    and v1: "scalar_value (scalars st1 d) = (if ?x = JUndefined then JUndefined else f ?x)"
    and sh: "same_shape sp st1"
  proof (cases "?x = JUndefined")
    case True
    then show ?thesis using that[of sp] ctor val_p by simp
  next
    case False
    from fuel have n: "n \<noteq> 0" by simp
    have "call_observer n (Derive d f) ?x sp =
        Some (sp\<lparr> scalars := (scalars sp)(d := (scalars sp d)\<lparr> scalar_value := f ?x \<rparr>) \<rparr>)"
      using n by (simp add: call_observer_Derive ScalarProperty_set.simps Let_def val_p)
    then show ?thesis
      using that[of "sp\<lparr> scalars := (scalars sp)(d := (scalars sp d)\<lparr> scalar_value := f ?x \<rparr>) \<rparr>"]
        ctor False by (simp add: same_shape_def)
  qed
  have inv: "creation_ordered (Suc d) st1" "single_subscription st1"
    "Derive d f \<in> set (scalar_observers (scalars st1 s))"
    using ord_p single_p obs_p sh
    by (simp_all add: same_shape_ordered same_shape_single) (simp add: same_shape_def)
  have "Suc d \<le> n + s + 1" using fuel by simp
  from sets_recompute[OF inv this] st1 v1 show ?thesis by blast
qed

lemma empty_state_ordered: "creation_ordered N (ScalarProperty_constructor a x empty_state)"
  by (simp add: creation_ordered_def subscribers_def ScalarProperty_constructor_def empty_state_def)

lemma empty_state_single: "single_subscription (ScalarProperty_constructor a x empty_state)"
  by (simp add: single_subscription_def subscribers_def ScalarProperty_constructor_def empty_state_def)

text \<open>
  The theorem at the store of the repository's test: a scalar that was set to 3, a
  derived property that doubles; then two more calls of \<open>set\<close>.
\<close>

theorem derived_recompute_witness:
  "\<exists>st1. DerivedProperty_constructor 2 1 (PropertyObs (ScalarRef 0)) double derived_example = Some st1
      \<and> scalar_value (scalars st1 1) = JNum 6
      \<and> (\<exists>st2. ScalarProperty_sets 2 0 [JNum 4, JNum 5] st1 = Some st2
             \<and> scalar_value (scalars st2 1) = JNum 10)"
proof -
  have v: "scalar_value (scalars derived_example 0) = JNum 3"
    by (simp add: derived_example_def ScalarProperty_constructor_def)
  from derived_recompute[of 1 derived_example 0 1 2 double]
  obtain st1 where c: "DerivedProperty_constructor 2 1 (PropertyObs (ScalarRef 0)) double derived_example = Some st1"
    and v1: "scalar_value (scalars st1 1) = double (JNum 3)"
    and all: "\<And>vs v. \<exists>st2. ScalarProperty_sets 2 0 (vs @ [v]) st1 = Some st2
                        \<and> scalar_value (scalars st2 1) = double v"
    unfolding derived_example_def
    using empty_state_ordered empty_state_single v[unfolded derived_example_def] by auto
  from all[of "[JNum 4]" "JNum 5"] c v1 show ?thesis by (simp add: double_def)
qed

section \<open>Facts about linking and tweaks\<close>

text \<open>
  C4. \<open>tryLink\<close> calls the \<open>linkTo\<close> of the linkable on the node, and returns what it
  returns, if the target tags of the linkable and the tags the node advertises have
  a tag in common; otherwise it returns with the store unchanged, whatever the
  \<open>linkTo\<close> of the linkable would do.
\<close>

theorem tryLink_attaches_iff_tags_meet:
  "tryLink n linkable target st =
     (if set (linkTargets linkable) \<inter> set (linkableTargets (constructs st target)) \<noteq> {}
      then linkTo linkable n target st
      else Some (Inr (), st))"
  by (auto simp: tryLink_def list_ex_iff)

section \<open>Facts about link relationships and subscriptions\<close>

lemma fire_Probes:
  "fire n (map Probe ks) x st = Some (st\<lparr> calls := calls st @ map (\<lambda>k. (k, x)) ks \<rparr>)"
  by (induction ks arbitrary: st) simp_all

text \<open>
  C5. A \<open>set\<close> on a link relationship that has a value fails with
  \<open>AlreadyLinkedError\<close> and leaves the store as it is. A \<open>set\<close> on one without a
  value returns (in a well-formed store, with a bound on the depth of calls of at
  least \<open>N\<close>): the store it returns is the one in which the value is stored and
  every observer has been called with the construct, in the order of registration;
  the value is then the construct, every later \<open>set\<close> fails and changes nothing,
  and \<open>addObserver\<close> calls the new observer at once with the stored construct.
\<close>

theorem LinkRelationship_set_once:
  "(link_value (linkrels st this) \<noteq> None \<longrightarrow>
      LinkRelationship_set n this x st = Some (Inl AlreadyLinkedError, st))
   \<and> (link_value (linkrels st this) = None \<and> creation_ordered N st \<and> N \<le> n
        \<and> list_all (\<lambda>d. d < N) (derive_targets (link_observers (linkrels st this))) \<longrightarrow>
      (\<exists>st1. LinkRelationship_set n this x st = Some (Inr (), st1)
         \<and> fire n (link_observers (linkrels st this)) (JRef x)
              (st\<lparr> linkrels := (linkrels st)(this := (linkrels st this)\<lparr> link_value := Some x \<rparr>) \<rparr>)
             = Some st1
         \<and> link_value (linkrels st1 this) = Some x
         \<and> (\<forall>m y. LinkRelationship_set m this y st1 = Some (Inl AlreadyLinkedError, st1))
         \<and> (\<forall>m obs. LinkRelationship_addObserver m this obs st1 =
               call_observer m obs (JRef x)
                 (st1\<lparr> linkrels := (linkrels st1)(this := (linkrels st1 this)
                    \<lparr> link_observers := link_observers (linkrels st1 this) @ [obs] \<rparr>) \<rparr>))))"
proof (intro conjI impI)
  assume "link_value (linkrels st this) \<noteq> None"
  then show "LinkRelationship_set n this x st = Some (Inl AlreadyLinkedError, st)"
    by (simp add: LinkRelationship_set_def)
next
  let ?st0 = "st\<lparr> linkrels := (linkrels st)(this := (linkrels st this)\<lparr> link_value := Some x \<rparr>) \<rparr>"
  let ?os = "link_observers (linkrels st this)"
  assume a: "link_value (linkrels st this) = None \<and> creation_ordered N st \<and> N \<le> n
        \<and> list_all (\<lambda>d. d < N) (derive_targets ?os)"
  from a have ord: "creation_ordered N ?st0" by (simp add: creation_ordered_def subscribers_def)
  from a have "\<forall>d \<in> set (derive_targets ?os). d < N \<and> N \<le> n + d"
    by (auto simp: list_all_iff)
  from fire_returns(2)[OF ord this] obtain st1 where f: "fire n ?os (JRef x) ?st0 = Some st1"
    by blast
  have l: "linkrels st1 = linkrels ?st0" using fire_shape(2)[OF f] by (simp add: same_shape_def)
  have v: "link_value (linkrels st1 this) = Some x" by (simp add: l)
  have "LinkRelationship_set n this x st = Some (Inr (), st1)"
    using a f by (simp add: LinkRelationship_set_def)
  moreover have "LinkRelationship_set m this y st1 = Some (Inl AlreadyLinkedError, st1)" for m y
    using v by (simp add: LinkRelationship_set_def)
  moreover have "LinkRelationship_addObserver m this obs st1 =
      call_observer m obs (JRef x)
        (st1\<lparr> linkrels := (linkrels st1)(this := (linkrels st1 this)
            \<lparr> link_observers := link_observers (linkrels st1 this) @ [obs] \<rparr>) \<rparr>)" for m obs
    using v by (simp add: LinkRelationship_addObserver_def)
  ultimately show "\<exists>st1. LinkRelationship_set n this x st = Some (Inr (), st1)
         \<and> fire n ?os (JRef x) ?st0 = Some st1
         \<and> link_value (linkrels st1 this) = Some x
         \<and> (\<forall>m y. LinkRelationship_set m this y st1 = Some (Inl AlreadyLinkedError, st1))
         \<and> (\<forall>m obs. LinkRelationship_addObserver m this obs st1 =
               call_observer m obs (JRef x)
                 (st1\<lparr> linkrels := (linkrels st1)(this := (linkrels st1 this)
                    \<lparr> link_observers := link_observers (linkrels st1 this) @ [obs] \<rparr>) \<rparr>))"
    using f v by blast
qed

lemma link_example_ordered: "creation_ordered 0 link_example"
  by (simp add: creation_ordered_def subscribers_def link_example_def empty_state_def)

text \<open>
  The theorem at the example: the one observer is called with the construct, a
  second \<open>set\<close> fails, and an observer added afterwards is called at once.
\<close>

theorem LinkRelationship_set_once_witness:
  "\<exists>st1. LinkRelationship_set 0 0 5 link_example = Some (Inr (), st1)
      \<and> link_value (linkrels st1 0) = Some 5
      \<and> calls st1 = [(7, JRef 5)]
      \<and> LinkRelationship_set 0 0 6 st1 = Some (Inl AlreadyLinkedError, st1)
      \<and> map_option calls (LinkRelationship_addObserver 0 0 (Probe 8) st1)
          = Some [(7, JRef 5), (8, JRef 5)]"
proof -
  have os: "link_observers (linkrels link_example 0) = map Probe [7]"
    and v: "link_value (linkrels link_example 0) = None"
    and c: "calls link_example = []"
    by (simp_all add: link_example_def empty_state_def)
  from LinkRelationship_set_once[of link_example 0 0 5 0] link_example_ordered v
  obtain st1 where s: "LinkRelationship_set 0 0 5 link_example = Some (Inr (), st1)"
    and f: "fire 0 (link_observers (linkrels link_example 0)) (JRef 5)
              (link_example\<lparr> linkrels := (linkrels link_example)
                 (0 := (linkrels link_example 0)\<lparr> link_value := Some 5 \<rparr>) \<rparr>) = Some st1"
    and v1: "link_value (linkrels st1 0) = Some 5"
    and again: "\<And>m y. LinkRelationship_set m 0 y st1 = Some (Inl AlreadyLinkedError, st1)"
    and add: "\<And>m obs. LinkRelationship_addObserver m 0 obs st1 =
               call_observer m obs (JRef 5)
                 (st1\<lparr> linkrels := (linkrels st1)(0 := (linkrels st1 0)
                    \<lparr> link_observers := link_observers (linkrels st1 0) @ [obs] \<rparr>) \<rparr>)"
    by (auto simp: os)
  from f have c1: "calls st1 = [(7, JRef 5)]"
    unfolding os fire_Probes by (auto simp: c)
  show ?thesis
    using s v1 c1 again[of 0 6] add[of 0 "Probe 8"] by simp
qed

text \<open>
  C10. \<open>addObserver\<close> on a collection calls the new observer twice, one call after
  the other and both with the contents of the collection (also when it is empty):
  an outside callback is recorded twice. On a scalar and on a link relationship the
  observer is called once with the value if there is one, and not at all otherwise.
\<close>

theorem addObserver_notifies:
  "CollectionProperty_addObserver n this obs st =
     (case call_observer n obs (JArr (collection_value (collections st this)))
             (CollectionProperty_push this obs st) of
        None \<Rightarrow> None
      | Some st1 \<Rightarrow> call_observer n obs (JArr (collection_value (collections st this))) st1)
   \<and> CollectionProperty_addObserver n this (Probe k) st =
       Some ((CollectionProperty_push this (Probe k) st)
         \<lparr> calls := calls st @ [(k, JArr (collection_value (collections st this))),
                                 (k, JArr (collection_value (collections st this)))] \<rparr>)
   \<and> ScalarProperty_addObserver n this obs st =
       (if scalar_value (scalars st this) = JUndefined then Some (ScalarProperty_push this obs st)
        else call_observer n obs (scalar_value (scalars st this)) (ScalarProperty_push this obs st))
   \<and> LinkRelationship_addObserver n this obs st =
       (case link_value (linkrels st this) of
          None \<Rightarrow> Some (st\<lparr> linkrels := (linkrels st)(this := (linkrels st this)
                    \<lparr> link_observers := link_observers (linkrels st this) @ [obs] \<rparr>) \<rparr>)
        | Some x \<Rightarrow> call_observer n obs (JRef x)
                 (st\<lparr> linkrels := (linkrels st)(this := (linkrels st this)
                    \<lparr> link_observers := link_observers (linkrels st this) @ [obs] \<rparr>) \<rparr>))"
proof -
  let ?v = "JArr (collection_value (collections st this))"
  let ?p = "CollectionProperty_push this obs st"
  have vp: "CollectionProperty_value this ?p = ?v"
    by (simp add: CollectionProperty_value_def CollectionProperty_push_def)
  have keep: "CollectionProperty_value this st1 = ?v" if "call_observer n obs ?v ?p = Some st1" for st1
    using fire_shape(3)[OF that] vp by (simp add: same_shape_def CollectionProperty_value_def)
  have 1: "CollectionProperty_addObserver n this obs st =
     (case call_observer n obs ?v ?p of None \<Rightarrow> None | Some st1 \<Rightarrow> call_observer n obs ?v st1)"
    using keep
    by (auto simp: CollectionProperty_addObserver_def Property_addObserver_def Let_def vp
        split: option.splits)
  have 2: "CollectionProperty_addObserver n this (Probe k) st =
       Some ((CollectionProperty_push this (Probe k) st)\<lparr> calls := calls st @ [(k, ?v), (k, ?v)] \<rparr>)"
    by (simp add: CollectionProperty_addObserver_def Property_addObserver_def Let_def
        CollectionProperty_value_def CollectionProperty_push_def)
  have 3: "ScalarProperty_addObserver n this obs st =
       (if scalar_value (scalars st this) = JUndefined then Some (ScalarProperty_push this obs st)
        else call_observer n obs (scalar_value (scalars st this)) (ScalarProperty_push this obs st))"
    by (simp add: ScalarProperty_addObserver_def Property_addObserver_def Let_def
        ScalarProperty_value_def ScalarProperty_push_def)
  show ?thesis
    using 1 2 3 by (simp add: LinkRelationship_addObserver_def Let_def)
qed

text \<open>
  The theorem at an empty collection, at a scalar with and without a value, and at
  a link relationship without a value: the calls recorded for the new observer.
\<close>

theorem addObserver_notifies_witness:
  "map_option calls (CollectionProperty_addObserver 0 0 (Probe 7) collection_example)
     = Some [(7, JArr []), (7, JArr [])]
   \<and> map_option calls (ScalarProperty_addObserver 0 0 (Probe 7) derived_example)
     = Some [(7, JNum 3)]
   \<and> map_option calls (ScalarProperty_addObserver 0 0 (Probe 7) empty_state) = Some []
   \<and> map_option calls (LinkRelationship_addObserver 0 0 (Probe 7) link_example) = Some []"
  using addObserver_notifies[of 0 0 "Probe 7" collection_example 7]
    addObserver_notifies[of 0 0 "Probe 7" derived_example 7]
    addObserver_notifies[of 0 0 "Probe 7" empty_state 7]
    addObserver_notifies[of 0 0 "Probe 7" link_example 7]
  by (simp add: collection_example_def derived_example_def link_example_def empty_state_def
      CollectionProperty_constructor_def ScalarProperty_constructor_def
      CollectionProperty_push_def ScalarProperty_push_def)

text \<open>
  C6. \<open>linkTo\<close> of a scalar tweak on a resource fails with \<open>UnknownPropertyError\<close>
  if the resource has no property of that name and the name is not one that every
  plain object inherits, with \<open>TypeMismatchError\<close> if the property is a collection,
  and with \<open>AlreadySetError\<close> if the scalar holds a value, in each case leaving the
  store as it is. Otherwise (in a well-formed store, with a sufficient bound on the
  depth of calls) it returns what \<open>set\<close> returns, and the scalar then holds the
  carried value; if that value is not \<open>undefined\<close>, every further scalar tweak for
  the same property of the same resource fails with \<open>AlreadySetError\<close>.
\<close>

theorem ScalarTweak_linkTo_outcomes:
  assumes "resource (constructs st res) = Some r"
  shows "(map_of (properties r) p = None \<and> \<not> inherited p \<longrightarrow>
            ScalarTweak_linkTo p v n res st = Some (Inl UnknownPropertyError, st))
       \<and> (\<forall>a. map_of (properties r) p = Some (CollectionRef a) \<longrightarrow>
            ScalarTweak_linkTo p v n res st = Some (Inl TypeMismatchError, st))
       \<and> (\<forall>a. map_of (properties r) p = Some (ScalarRef a)
              \<and> scalar_value (scalars st a) \<noteq> JUndefined \<longrightarrow>
            ScalarTweak_linkTo p v n res st = Some (Inl AlreadySetError, st))
       \<and> (\<forall>a. map_of (properties r) p = Some (ScalarRef a)
              \<and> scalar_value (scalars st a) = JUndefined
              \<and> creation_ordered N st \<and> N \<le> n + a + 1 \<longrightarrow>
            (\<exists>st1. ScalarTweak_linkTo p v n res st = Some (Inr (), st1)
               \<and> ScalarProperty_set n a v st = Some st1
               \<and> scalar_value (scalars st1 a) = v
               \<and> (v \<noteq> JUndefined \<longrightarrow>
                    (\<forall>w m. ScalarTweak_linkTo p w m res st1 = Some (Inl AlreadySetError, st1)))))"
proof (intro conjI allI impI)
  show "ScalarTweak_linkTo p v n res st = Some (Inl UnknownPropertyError, st)"
    if "map_of (properties r) p = None \<and> \<not> inherited p"
    using that assms by (simp add: ScalarTweak_linkTo_def Resource_property_def)
next
  fix a
  show "ScalarTweak_linkTo p v n res st = Some (Inl TypeMismatchError, st)"
    if "map_of (properties r) p = Some (CollectionRef a)"
    using that assms by (simp add: ScalarTweak_linkTo_def Resource_property_def)
next
  fix a
  show "ScalarTweak_linkTo p v n res st = Some (Inl AlreadySetError, st)"
    if "map_of (properties r) p = Some (ScalarRef a) \<and> scalar_value (scalars st a) \<noteq> JUndefined"
    using that assms
    by (simp add: ScalarTweak_linkTo_def Resource_property_def ScalarProperty_hasValue_def)
next
  fix a
  assume a: "map_of (properties r) p = Some (ScalarRef a)
              \<and> scalar_value (scalars st a) = JUndefined
              \<and> creation_ordered N st \<and> N \<le> n + a + 1"
  then have ord: "creation_ordered N st" and fuel: "N \<le> n + a + 1" by simp_all
  from fire_returns(1)[OF ord fuel] obtain st1 where s: "ScalarProperty_set n a v st = Some st1"
    by blast
  have v1: "scalar_value (scalars st1 a) = v" using ord s by (rule set_stores)
  have c: "constructs st1 = constructs st" using fire_shape(1)[OF s] by (simp add: same_shape_def)
  have first: "ScalarTweak_linkTo p v n res st = Some (Inr (), st1)"
    using a assms s
    by (simp add: ScalarTweak_linkTo_def Resource_property_def ScalarProperty_hasValue_def)
  have "ScalarTweak_linkTo p w m res st1 = Some (Inl AlreadySetError, st1)"
    if "v \<noteq> JUndefined" for w m
    using that a assms v1 c
    by (simp add: ScalarTweak_linkTo_def Resource_property_def ScalarProperty_hasValue_def)
  with first s v1
  show "\<exists>st1. ScalarTweak_linkTo p v n res st = Some (Inr (), st1)
               \<and> ScalarProperty_set n a v st = Some st1
               \<and> scalar_value (scalars st1 a) = v
               \<and> (v \<noteq> JUndefined \<longrightarrow>
                    (\<forall>w m. ScalarTweak_linkTo p w m res st1 = Some (Inl AlreadySetError, st1)))"
    by blast
qed

text \<open>Unfolding the constructors and the traversal on a concrete store.\<close>

lemmas table_defs = has_member_def inherited_def object_prototype_names_def own_order_def array_index_def
  index_rank_def digit_def

lemmas build_defs = Root_constructor_def Construct_constructor_def
  Resource_constructor_def new_construct_def makeLinkable_def addProperty_def Resource_addProperty_def
  ScalarProperty_constructor_def CollectionProperty_constructor_def
  ScalarTweak_def CollectionTweak_def adopt_def tryLink_def
  ScalarTweak_linkTo_def CollectionTweak_linkTo_def Resource_property_def ScalarProperty_hasValue_def
  ScalarProperty_set.simps CollectionProperty_add_def CollectionProperty_value_def ScalarProperty_value_def
  Let_def

lemma resource_example_built:
  "run_steps bucket_steps empty_state = (Inr (), resource_example)"
  by (simp add: bucket_steps_def resource_example_def empty_state_def build_defs table_defs fun_eq_iff)

lemma resource_example_ordered: "creation_ordered 0 resource_example"
  by (simp add: creation_ordered_def subscribers_def resource_example_def empty_state_def)

lemma resource_example_resource:
  "resource (constructs resource_example 2) =
     Some \<lparr> resourceType = ''S3::Bucket'',
            properties = [(''BucketName'', ScalarRef 0), (''Tags'', CollectionRef 0)] \<rparr>"
  by (simp add: resource_example_def)

lemma resource_example_unset: "scalar_value (scalars resource_example 0) = JUndefined"
  by (simp add: resource_example_def empty_state_def)

text \<open>The theorem at the resource of the example: one case for each of the outcomes.\<close>

theorem ScalarTweak_linkTo_outcomes_witness:
  "(\<exists>st1. ScalarTweak_linkTo ''BucketName'' (JStr ''MyBucket'') 0 2 resource_example = Some (Inr (), st1)
       \<and> scalar_value (scalars st1 0) = JStr ''MyBucket''
       \<and> ScalarTweak_linkTo ''BucketName'' (JStr ''Other'') 0 2 st1 = Some (Inl AlreadySetError, st1))
   \<and> ScalarTweak_linkTo ''Name'' (JStr ''MyBucket'') 0 2 resource_example
        = Some (Inl UnknownPropertyError, resource_example)
   \<and> ScalarTweak_linkTo ''Tags'' (JStr ''MyBucket'') 0 2 resource_example
        = Some (Inl TypeMismatchError, resource_example)"
proof -
  define r where "r = \<lparr> resourceType = ''S3::Bucket'',
                 properties = [(''BucketName'', ScalarRef 0), (''Tags'', CollectionRef 0)] \<rparr>"
  have res: "resource (constructs resource_example 2) = Some r"
    by (simp add: resource_example_resource r_def)
  have p: "map_of (properties r) ''BucketName'' = Some (ScalarRef 0)"
    "map_of (properties r) ''Name'' = None"
    "map_of (properties r) ''Tags'' = Some (CollectionRef 0)"
    "\<not> inherited ''Name''"
    by (simp_all add: r_def table_defs)
  from ScalarTweak_linkTo_outcomes[OF res, of "''BucketName''" "JStr ''MyBucket''" 0 0] p(1)
    resource_example_unset resource_example_ordered
  have "\<exists>st1. ScalarTweak_linkTo ''BucketName'' (JStr ''MyBucket'') 0 2 resource_example = Some (Inr (), st1)
       \<and> scalar_value (scalars st1 0) = JStr ''MyBucket''
       \<and> ScalarTweak_linkTo ''BucketName'' (JStr ''Other'') 0 2 st1 = Some (Inl AlreadySetError, st1)"
    by fastforce
  moreover from ScalarTweak_linkTo_outcomes[OF res, of "''Name''" "JStr ''MyBucket''" 0 0] p(2) p(4)
  have "ScalarTweak_linkTo ''Name'' (JStr ''MyBucket'') 0 2 resource_example
        = Some (Inl UnknownPropertyError, resource_example)" by simp
  moreover from ScalarTweak_linkTo_outcomes[OF res, of "''Tags''" "JStr ''MyBucket''" 0 0] p(3)
  have "ScalarTweak_linkTo ''Tags'' (JStr ''MyBucket'') 0 2 resource_example
        = Some (Inl TypeMismatchError, resource_example)" by simp
  ultimately show ?thesis by simp
qed

text \<open>
  C6 as the specification states it does not hold. The resource of the example has
  no property \<open>constructor\<close>, and a scalar tweak for that name fails with
  \<open>TypeMismatchError\<close>, not with \<open>UnknownPropertyError\<close>: the lookup finds the member
  that the table of properties inherits. A scalar tweak that carries \<open>undefined\<close>
  for \<open>BucketName\<close> returns and leaves the scalar without a value, and a second
  scalar tweak for \<open>BucketName\<close> on the same resource then returns as well and sets
  the scalar, where the claim has it fail with \<open>AlreadySetError\<close>.
\<close>

theorem ScalarTweak_linkTo_not_as_claimed:
  "map_of [(''BucketName'', ScalarRef 0), (''Tags'', CollectionRef 0)] ''constructor'' = None
   \<and> ScalarTweak_linkTo ''constructor'' (JStr ''x'') 0 2 resource_example
        = Some (Inl TypeMismatchError, resource_example)
   \<and> ScalarTweak_linkTo ''BucketName'' JUndefined 0 2 resource_example
        = Some (Inr (), resource_example)
   \<and> ScalarTweak_linkTo ''BucketName'' (JStr ''MyBucket'') 0 2 resource_example
        = Some (Inr (), resource_example\<lparr> scalars := (scalars resource_example)
             (0 := \<lparr> scalar_value = JStr ''MyBucket'', scalar_observers = [] \<rparr>) \<rparr>)"
  by (simp add: resource_example_def empty_state_def build_defs table_defs fun_eq_iff)

text \<open>
  C4 at the resource of the example: the tweak attaches to the resource, which
  advertises its tag, and leaves the store alone at the root, which advertises none.
\<close>

theorem tryLink_attaches_iff_tags_meet_witness:
  "tryLink 0 (ScalarTweak ''S3::Bucket'' ''BucketName'' (JStr ''MyBucket'')) 2 resource_example
     = ScalarTweak_linkTo ''BucketName'' (JStr ''MyBucket'') 0 2 resource_example
   \<and> tryLink 0 (ScalarTweak ''S3::Bucket'' ''BucketName'' (JStr ''MyBucket'')) 1 resource_example
     = Some (Inr (), resource_example)"
proof -
  have t: "linkTargets (ScalarTweak ''S3::Bucket'' ''BucketName'' (JStr ''MyBucket'')) = [''S3::Bucket'']"
    "linkTo (ScalarTweak ''S3::Bucket'' ''BucketName'' (JStr ''MyBucket''))
       = ScalarTweak_linkTo ''BucketName'' (JStr ''MyBucket'')"
    by (simp_all add: ScalarTweak_def)
  have a: "linkableTargets (constructs resource_example 2) = [''S3::Bucket'']"
    "linkableTargets (constructs resource_example 1) = []"
    by (simp_all add: resource_example_def empty_state_def new_construct_def)
  show ?thesis
    using tryLink_attaches_iff_tags_meet[of 0 "ScalarTweak ''S3::Bucket'' ''BucketName'' (JStr ''MyBucket'')" 2 resource_example]
      tryLink_attaches_iff_tags_meet[of 0 "ScalarTweak ''S3::Bucket'' ''BucketName'' (JStr ''MyBucket'')" 1 resource_example] t a
    by simp
qed

section \<open>Facts about rendering\<close>

lemmas render_defs = renderAll_def findAll_def findAll_loop.simps sort_by_path_def keyed_def path_key_def
     constructPath_def constructPath_loop.simps Resource_render.simps logicalId_def object_assign_def
     fromEntries_def
     ScalarProperty_value_def CollectionProperty_value_def

lemma bucket_scenario_value:
  "bucket_scenario lc (Suc n) = Some (Inr bucket_document)"
  unfolding bucket_scenario_def bucket_document_def resource_example_built bucket_tweaks_def
  apply (simp add: resource_example_def empty_state_def build_defs table_defs)
  apply (simp add: render_defs table_defs)
  done

text \<open>
  C8, as the code has it. With any bound on the depth of calls above zero, and
  whatever the collation, the scenario returns, and the document is keyed by the
  logical id \<open>Bucket\<close>; its entry has the keys \<open>Type\<close> and \<open>Properties\<close>, the type is
  \<open>S3::Bucket\<close>, and the properties are the two that the tweaks have set.
\<close>

theorem bucket_scenario_renders:
  "bucket_scenario lc (Suc n) = Some (Inr bucket_document)
   \<and> bucket_document =
     JObj [(''Bucket'',
       JObj [(''Type'', JStr ''S3::Bucket''),
             (''Properties'',
               JObj [(''BucketName'', JStr ''MyBucket''),
                     (''Tags'', JArr [JObj [(''Key'', JStr ''CostCenter''),
                                           (''Value'', JStr ''1234'')]])])])]"
  using bucket_scenario_value by (simp add: bucket_document_def)

text \<open>
  C8 as the specification states it does not hold: the scenario does not yield the
  document whose entry has the keys \<open>type\<close> and \<open>properties\<close>. The strings that
  \<open>renderAll\<close> compares are those of a single resource, so the collation has no
  part in the result; it is taken to be the order of the characters here.
\<close>

theorem bucket_scenario_not_as_claimed:
  "bucket_scenario default 1 \<noteq> Some (Inr bucket_document_claimed)"
  using bucket_scenario_value[of default 0]
  by (simp add: bucket_document_def bucket_document_claimed_def)

section \<open>Facts about \<open>renderAll\<close>\<close>

lemmas example_defs = tie_example_def node_def resource_node_def empty_state_def new_construct_def

lemma findAll_loop_Nil: "findAll_loop h [] ret = Some ret"
  by (simp add: findAll_loop.simps)

lemma findAll_loop_Cons:
  "findAll_loop h (a # q) ret =
     findAll_loop h (q @ kids h a) (if resource (h a) \<noteq> None then ret @ [a] else ret)"
  by (subst findAll_loop.simps) (simp add: kids_def)

text \<open>
  The loop takes a whole prefix of the queue: its children are queued behind the
  rest, in order, and its resources are collected, in order.
\<close>

lemma findAll_loop_queue:
  "findAll_loop h (q @ r) ret =
     findAll_loop h (r @ concat (map (kids h) q)) (ret @ filter (\<lambda>a. resource (h a) \<noteq> None) q)"
proof (induction q arbitrary: r ret)
  case Nil
  show ?case by simp
next
  case (Cons a q)
  have "findAll_loop h ((a # q) @ r) ret =
      findAll_loop h (q @ (r @ kids h a)) (if resource (h a) \<noteq> None then ret @ [a] else ret)"
    by (simp add: findAll_loop_Cons)
  also have "\<dots> = findAll_loop h ((r @ kids h a) @ concat (map (kids h) q))
      ((if resource (h a) \<noteq> None then ret @ [a] else ret) @ filter (\<lambda>a. resource (h a) \<noteq> None) q)"
    by (rule Cons.IH)
  finally show ?case by simp
qed

lemma findAll_loop_levels:
  "findAll_loop h [sc] [] = findAll_loop h (level h k sc) (resources_below h k sc)"
proof (induction k)
  case 0
  show ?case by (simp add: resources_below_def)
next
  case (Suc k)
  have "findAll_loop h (level h k sc) (resources_below h k sc) =
      findAll_loop h (level h (Suc k) sc) (resources_below h (Suc k) sc)"
    using findAll_loop_queue[of h "level h k sc" "[]" "resources_below h k sc"]
    by (simp add: resources_below_def)
  with Suc show ?case by simp
qed

lemma findAll_finite:
  "level h d sc = [] \<Longrightarrow> findAll h sc = Some (resources_below h d sc)"
  by (simp add: findAll_def findAll_loop_levels[of h sc d] findAll_loop_Nil)

lemma those_eq_Some: "those xs = Some ys \<longleftrightarrow> xs = map Some ys"
  by (induction xs arbitrary: ys) (auto split: option.splits)

lemma render_errors:
  "Resource_render n st r = Some (Inl e) \<Longrightarrow> e = NotCallableError"
  "render_entries n st ps = Some (Inl e) \<Longrightarrow> e = NotCallableError"
  "rendered n st v = Some (Inl e) \<Longrightarrow> e = NotCallableError"
proof (induction n st r and n st ps and n st v arbitrary: e and e and e
    rule: Resource_render_render_entries_rendered.induct)
  case (1 n st this)
  then show ?case
    by (auto simp: Resource_render.simps split: option.splits sum.splits)
next
  case (3 n st nm pr rest)
  then show ?case by (auto split: option.splits sum.splits)
next
  case (4 n st a)
  then show ?case by (auto split: option.splits sum.splits nat.splits if_splits)
next
  case (5 n st kvs)
  then show ?case by (auto split: option.splits if_splits)
qed simp_all

lemma merge_errors:
  "renderAll_merge n st rs ret = Some (Inl e) \<Longrightarrow> e = NotCallableError"
  by (induction rs arbitrary: ret) (auto split: option.splits sum.splits dest: render_errors(1))

lemma map_of_object_assign:
  "map_of (object_assign ret kvs)
     = map_of (rev (filter (\<lambda>kv. fst kv \<noteq> ''__proto__'') kvs) @ ret)"
  unfolding object_assign_def
proof (induction kvs arbitrary: ret)
  case Nil
  show ?case by simp
next
  case (Cons kv kvs)
  obtain k v where kv: "kv = (k, v)" by (cases kv)
  have "(map_of ret)(k \<mapsto> v) ++ m = map_of ret ++ ([k \<mapsto> v] ++ m)" for m
    by (auto simp: map_add_def fun_eq_iff split: option.splits)
  then show ?case
    by (simp add: kv Cons.IH update_conv')
qed

lemma object_assign_distinct:
  "distinct (map fst ret) \<Longrightarrow> distinct (map fst (object_assign ret kvs))"
  unfolding object_assign_def
  by (induction kvs arbitrary: ret) (auto simp: distinct_update)

lemma merge_last_wins:
  assumes "list_all (\<lambda>r. Resource_render n st r = Some (Inr (entry r))) rs"
    and "distinct (map fst ret)"
  shows "\<exists>doc. renderAll_merge n st rs ret = Some (Inr doc)
           \<and> map_of doc
               = map_of (filter (\<lambda>kv. fst kv \<noteq> ''__proto__'') (rev (concat (map entry rs))) @ ret)
           \<and> distinct (map fst doc)"
  using assms
proof (induction rs arbitrary: ret)
  case Nil
  then show ?case by simp
next
  case (Cons r rs)
  from Cons.prems have r: "Resource_render n st r = Some (Inr (entry r))"
    and rest: "list_all (\<lambda>r. Resource_render n st r = Some (Inr (entry r))) rs"
    by simp_all
  have "distinct (map fst (object_assign ret (entry r)))"
    using Cons.prems(2) by (rule object_assign_distinct)
  from Cons.IH[OF rest this]
  obtain doc where d: "renderAll_merge n st rs (object_assign ret (entry r)) = Some (Inr doc)"
    and m: "map_of doc = map_of (filter (\<lambda>kv. fst kv \<noteq> ''__proto__'') (rev (concat (map entry rs)))
               @ object_assign ret (entry r))"
    and dd: "distinct (map fst doc)"
    by blast
  have "map_of doc
      = map_of (filter (\<lambda>kv. fst kv \<noteq> ''__proto__'') (rev (concat (map entry (r # rs)))) @ ret)"
    unfolding m by (simp add: map_of_object_assign rev_filter)
  with d r dd show ?case by simp
qed

text \<open>The order of enumeration lists the same entries.\<close>

lemma mset_own_order: "mset (own_order al) = mset al"
proof -
  have "filter (\<lambda>(k, v). array_index k = None) al = filter (\<lambda>kv. \<not> (case kv of (k, v) \<Rightarrow> array_index k \<noteq> None)) al"
    by (rule filter_cong) auto
  then show ?thesis by (simp add: own_order_def)
qed

lemma map_of_own_order:
  assumes "distinct (map fst al)"
  shows "map_of (own_order al) = map_of al"
proof -
  have "mset (map fst (own_order al)) = mset (map fst al)"
    using mset_own_order[of al] by (metis mset_map)
  then have "distinct (map fst (own_order al))"
    using assms by (metis mset_eq_imp_distinct_iff)
  moreover have "set (own_order al) = set al"
    using mset_own_order[of al] by (rule mset_eq_setD)
  ultimately show ?thesis using assms by (simp add: map_of_inject_set)
qed

lemma render_has_key:
  "Resource_render n st r = Some (Inr kvs) \<Longrightarrow> \<exists>k. path_key (constructs st) r = Some k"
  by (auto simp: Resource_render.simps path_key_def logicalId_def split: option.splits sum.splits)

lemma keyed_total:
  "\<forall>r \<in> set res. \<exists>k. path_key h r = Some k \<Longrightarrow> \<exists>krs. keyed h res = Some krs"
  unfolding keyed_def by (induction res) auto

lemma keyed_Some:
  assumes "keyed h res = Some krs"
  shows "map snd krs = res \<and> map (path_key h) res = map Some (map fst krs)"
  using assms unfolding keyed_def those_eq_Some
proof (induction res arbitrary: krs)
  case Nil
  then show ?case by simp
next
  case (Cons r res)
  then obtain kr rest where "krs = kr # rest" by (cases krs) auto
  with Cons show ?case by (cases kr) auto
qed

text \<open>
  C2, as the code has it. \<open>renderAll\<close> never fails with \<open>DuplicateLogicalIdError\<close>.
  On a finite tree (no node at the depth \<open>d\<close>) in which every resource renders:
  \<open>findAll\<close> returns all the resources of the tree, in breadth-first order; each
  has a key, its path joined with a slash; the sort returns the resources in the
  order of the comparison of their keys, the same resources, and those whose keys
  compare equal in the order of the traversal; and \<open>renderAll\<close> returns a document
  that maps each logical id to the entry of the last resource, in sorted order,
  that renders to it: a later entry replaces an earlier one with the same logical
  id. The logical id \<open>__proto__\<close> alone never becomes a key of the document.
\<close>

theorem renderAll_later_entry_replaces:
  "renderAll lc n st sc \<noteq> Some (Inl DuplicateLogicalIdError)
   \<and> (level (constructs st) d sc = []
        \<and> list_all (\<lambda>r. Resource_render n st r = Some (Inr (entry r)))
             (resources_below (constructs st) d sc) \<longrightarrow>
      (\<exists>krs doc.
           findAll (constructs st) sc = Some (resources_below (constructs st) d sc)
         \<and> keyed (constructs st) (resources_below (constructs st) d sc) = Some krs
         \<and> map snd krs = resources_below (constructs st) d sc
         \<and> map (path_key (constructs st)) (map snd krs) = map Some (map fst krs)
         \<and> sort_by_path lc (constructs st) (resources_below (constructs st) d sc)
             = Some (map snd (Sorting_Algorithms.sort (key fst lc) krs))
         \<and> mset (Sorting_Algorithms.sort (key fst lc) krs) = mset krs
         \<and> Sorting_Algorithms.sorted (key fst lc) (Sorting_Algorithms.sort (key fst lc) krs)
         \<and> (\<forall>k. filter (\<lambda>kr. compare lc k (fst kr) = Equiv) (Sorting_Algorithms.sort (key fst lc) krs)
                = filter (\<lambda>kr. compare lc k (fst kr) = Equiv) krs)
         \<and> renderAll lc n st sc = Some (Inr (JObj doc))
         \<and> map_of doc
             = map_of (filter (\<lambda>kv. fst kv \<noteq> ''__proto__'')
                 (rev (concat (map entry (map snd (Sorting_Algorithms.sort (key fst lc) krs))))))))"
proof (intro conjI impI)
  show "renderAll lc n st sc \<noteq> Some (Inl DuplicateLogicalIdError)"
    by (auto simp: renderAll_def split: option.splits sum.splits dest: merge_errors)
next
  define res where "res = resources_below (constructs st) d sc"
  assume a: "level (constructs st) d sc = []
        \<and> list_all (\<lambda>r. Resource_render n st r = Some (Inr (entry r)))
             (resources_below (constructs st) d sc)"
  then have f: "findAll (constructs st) sc = Some res"
    unfolding res_def by (simp add: findAll_finite)
  from a have r: "\<forall>r \<in> set res. Resource_render n st r = Some (Inr (entry r))"
    unfolding res_def by (simp add: list_all_iff)
  then have "\<forall>r \<in> set res. \<exists>k. path_key (constructs st) r = Some k"
    using render_has_key by blast
  then obtain krs where k: "keyed (constructs st) res = Some krs"
    using keyed_total by blast
  from keyed_Some[OF k] have s: "map snd krs = res"
    and p: "map (path_key (constructs st)) res = map Some (map fst krs)" by simp_all
  define skrs where "skrs = Sorting_Algorithms.sort (key fst lc) krs"
  have sb: "sort_by_path lc (constructs st) res = Some (map snd skrs)"
    by (simp add: sort_by_path_def k skrs_def)
  have m: "mset skrs = mset krs" by (simp add: skrs_def)
  have so: "Sorting_Algorithms.sorted (key fst lc) skrs" by (simp add: skrs_def)
  have stable: "filter (\<lambda>kr. compare lc k (fst kr) = Equiv) skrs
      = filter (\<lambda>kr. compare lc k (fst kr) = Equiv) krs" for k
    using stable_sort[of "key fst lc" "(k, undefined)" krs] by (simp add: skrs_def)
  have "set (map snd skrs) = set res"
    unfolding s[symmetric] by (simp add: skrs_def)
  with r have "list_all (\<lambda>r. Resource_render n st r = Some (Inr (entry r))) (map snd skrs)"
    unfolding list_all_iff by blast
  from merge_last_wins[OF this, of "[]"] obtain doc
    where d: "renderAll_merge n st (map snd skrs) [] = Some (Inr doc)"
      and md: "map_of doc = map_of (filter (\<lambda>kv. fst kv \<noteq> ''__proto__'')
                  (rev (concat (map entry (map snd skrs)))))"
      and dd: "distinct (map fst doc)" by auto
  have ra: "renderAll lc n st sc = Some (Inr (JObj (own_order doc)))"
    by (simp add: renderAll_def f sb d)
  have mo: "map_of (own_order doc) = map_of (filter (\<lambda>kv. fst kv \<noteq> ''__proto__'')
                  (rev (concat (map entry (map snd skrs)))))"
    using map_of_own_order[OF dd] md by simp
  have p': "map (path_key (constructs st)) (map snd krs) = map Some (map fst krs)"
    using p s by simp
  from f k s p' sb m so stable ra mo
  show "\<exists>krs doc.
           findAll (constructs st) sc = Some (resources_below (constructs st) d sc)
         \<and> keyed (constructs st) (resources_below (constructs st) d sc) = Some krs
         \<and> map snd krs = resources_below (constructs st) d sc
         \<and> map (path_key (constructs st)) (map snd krs) = map Some (map fst krs)
         \<and> sort_by_path lc (constructs st) (resources_below (constructs st) d sc)
             = Some (map snd (Sorting_Algorithms.sort (key fst lc) krs))
         \<and> mset (Sorting_Algorithms.sort (key fst lc) krs) = mset krs
         \<and> Sorting_Algorithms.sorted (key fst lc) (Sorting_Algorithms.sort (key fst lc) krs)
         \<and> (\<forall>k. filter (\<lambda>kr. compare lc k (fst kr) = Equiv) (Sorting_Algorithms.sort (key fst lc) krs)
                = filter (\<lambda>kr. compare lc k (fst kr) = Equiv) krs)
         \<and> renderAll lc n st sc = Some (Inr (JObj doc))
         \<and> map_of doc
             = map_of (filter (\<lambda>kv. fst kv \<noteq> ''__proto__'')
                 (rev (concat (map entry (map snd (Sorting_Algorithms.sort (key fst lc) krs))))))"
    unfolding res_def skrs_def by blast
qed

text \<open>The two resources of the example, whichever the order of the root's children.\<close>

lemma tie_keys:
  "path_key (constructs (tie_example cs)) 4 = Some ''a//b''"
  "path_key (constructs (tie_example cs)) 5 = Some ''a//b''"
  "logicalId (constructs (tie_example cs)) 4 = Some ''a/b''"
  "logicalId (constructs (tie_example cs)) 5 = Some ''a/b''"
  by (simp_all add: example_defs path_key_def logicalId_def constructPath_def constructPath_loop.simps)

lemma tie_resources:
  "resource (constructs (tie_example cs) 4) = Some \<lparr> resourceType = ''T1'', properties = [] \<rparr>"
  "resource (constructs (tie_example cs) 5) = Some \<lparr> resourceType = ''T2'', properties = [] \<rparr>"
  by (simp_all add: example_defs)

lemma tie_render:
  "Resource_render n (tie_example cs) 4 =
     Some (Inr [(''a/b'', JObj [(''Type'', JStr ''T1''), (''Properties'', JObj [])])])"
  "Resource_render n (tie_example cs) 5 =
     Some (Inr [(''a/b'', JObj [(''Type'', JStr ''T2''), (''Properties'', JObj [])])])"
  by (simp_all add: Resource_render.simps tie_keys tie_resources fromEntries_def own_order_def)

lemma tie_levels:
  "level (constructs (tie_example [(''a/'', 2), (''a'', 3)])) 3 1 = []"
  "resources_below (constructs (tie_example [(''a/'', 2), (''a'', 3)])) 3 1 = [4, 5]"
  "level (constructs (tie_example [(''a'', 3), (''a/'', 2)])) 3 1 = []"
  "resources_below (constructs (tie_example [(''a'', 3), (''a/'', 2)])) 3 1 = [5, 4]"
  by (simp_all add: resources_below_def eval_nat_numeral upt_rec kids_def table_defs example_defs)

lemma tie_sort:
  "Sorting_Algorithms.sort (key fst lc) [(''a//b'', a), (''a//b'', b)] = [(''a//b'', a :: addr), (''a//b'', b)]"
  by (simp add: compare.refl)

lemma tie_findAll:
  "findAll (constructs (tie_example [(''a/'', 2), (''a'', 3)])) 1 = Some [4, 5]"
  "findAll (constructs (tie_example [(''a'', 3), (''a/'', 2)])) 1 = Some [5, 4]"
  using findAll_finite[OF tie_levels(1)] findAll_finite[OF tie_levels(3)] tie_levels(2,4)
  by simp_all

lemma tie_renderAll:
  "renderAll lc n (tie_example [(''a/'', 2), (''a'', 3)]) 1 =
     Some (Inr (JObj [(''a/b'', JObj [(''Type'', JStr ''T2''), (''Properties'', JObj [])])]))"
  "renderAll lc n (tie_example [(''a'', 3), (''a/'', 2)]) 1 =
     Some (Inr (JObj [(''a/b'', JObj [(''Type'', JStr ''T1''), (''Properties'', JObj [])])]))"
  using tie_findAll
  by (simp_all add: renderAll_def sort_by_path_def keyed_def tie_keys tie_sort tie_render
      object_assign_def table_defs)

text \<open>
  The theorem at the two resources with the logical id \<open>a/b\<close>, the collation being
  the order of the characters: \<open>findAll\<close> returns both, and the document holds the
  entry of the second one.
\<close>

theorem renderAll_later_entry_replaces_witness:
  "\<exists>doc. findAll (constructs (tie_example [(''a/'', 2), (''a'', 3)])) 1 = Some [4, 5]
      \<and> renderAll default 0 (tie_example [(''a/'', 2), (''a'', 3)]) 1 = Some (Inr (JObj doc))
      \<and> map_of doc ''a/b'' = Some (JObj [(''Type'', JStr ''T2''), (''Properties'', JObj [])])"
proof -
  define entry :: "addr \<Rightarrow> (string \<times> val) list" where
    "entry r = [(''a/b'', JObj [(''Type'', JStr (if r = 4 then ''T1'' else ''T2'')),
                               (''Properties'', JObj [])])]" for r
  define st where "st = tie_example [(''a/'', 2), (''a'', 3)]"
  have l: "level (constructs st) 3 1 = []" and rb: "resources_below (constructs st) 3 1 = [4, 5]"
    unfolding st_def by (rule tie_levels)+
  have "list_all (\<lambda>r. Resource_render 0 st r = Some (Inr (entry r))) (resources_below (constructs st) 3 1)"
    unfolding rb by (simp add: st_def tie_render entry_def)
  with renderAll_later_entry_replaces[of default 0 st 1 3 entry] l
  obtain krs doc where f: "findAll (constructs st) 1 = Some (resources_below (constructs st) 3 1)"
    and k: "keyed (constructs st) (resources_below (constructs st) 3 1) = Some krs"
    and d: "renderAll default 0 st 1 = Some (Inr (JObj doc))"
    and m: "map_of doc = map_of (filter (\<lambda>kv. fst kv \<noteq> ''__proto__'')
              (rev (concat (map entry (map snd (Sorting_Algorithms.sort (key fst default) krs))))))"
    by blast
  have "krs = [(''a//b'', 4), (''a//b'', 5)]"
    using k unfolding rb by (simp add: keyed_def st_def tie_keys)
  then have "map_of doc ''a/b'' = Some (JObj [(''Type'', JStr ''T2''), (''Properties'', JObj [])])"
    unfolding m by (simp add: entry_def)
  moreover have "findAll (constructs st) 1 = Some [4, 5]" using f rb by simp
  ultimately show ?thesis using d unfolding st_def by blast
qed

text \<open>
  C2 as the specification states it does not hold: with two resources that render
  to the same logical id, \<open>renderAll\<close> returns a document, without an error, in
  which the entry of the first resource is gone. The two joined paths are the same
  string, so the result is the same with every collation; the collation here is
  the order of the characters.
\<close>

theorem renderAll_overwrites_silently:
  "renderAll default 0 (tie_example [(''a/'', 2), (''a'', 3)]) 1 =
     Some (Inr (JObj [(''a/b'', JObj [(''Type'', JStr ''T2''), (''Properties'', JObj [])])]))"
  by (rule tie_renderAll(1))

section \<open>\<open>renderAll\<close> and the order of insertion\<close>

text \<open>
  C9 at two trees that hold the same two resources under the same paths, with the
  same contents, and differ only in the order in which the two children of the root
  were inserted. Whatever the collation, the sort leaves the two resources in the
  order of the traversal, because their joined paths are the same string \<open>a//b\<close>,
  and the merge keeps the entry of the later one: the two documents differ.
\<close>

theorem renderAll_depends_on_insertion_order:
  "renderAll lc n (tie_example [(''a/'', 2), (''a'', 3)]) 1 =
     Some (Inr (JObj [(''a/b'', JObj [(''Type'', JStr ''T2''), (''Properties'', JObj [])])]))
   \<and> renderAll lc n (tie_example [(''a'', 3), (''a/'', 2)]) 1 =
     Some (Inr (JObj [(''a/b'', JObj [(''Type'', JStr ''T1''), (''Properties'', JObj [])])]))
   \<and> renderAll lc n (tie_example [(''a/'', 2), (''a'', 3)]) 1
       \<noteq> renderAll lc n (tie_example [(''a'', 3), (''a/'', 2)]) 1"
  unfolding tie_renderAll by simp

section \<open>Plain objects at concrete names\<close>

text \<open>
  Enumeration lists integer-like names first, in ascending order, whatever the
  order of insertion; a name with a leading zero is an ordinary name. A child or a
  property cannot be registered under a name that every plain object inherits, and
  the lookup of such a name finds a member that is not a property.
\<close>

lemma own_order_example:
  "own_order [(''b'', x), (''10'', y), (''01'', z), (''2'', w)]
     = [(''2'', w), (''10'', y), (''b'', x), (''01'', z)]"
  by (simp add: table_defs)

lemma inherited_example:
  "p \<noteq> this \<Longrightarrow> Construct_constructor this (Is p) (Is ''constructor'') h = Inl DuplicateIdError"
  "Resource_addProperty ''toString'' prop r = Inl DuplicatePropertyError"
  "Resource_property ''toString'' \<lparr> resourceType = rt, properties = [] \<rparr> = Inr Inherited"
  "Resource_property ''name'' \<lparr> resourceType = rt, properties = [] \<rparr> = Inl UnknownPropertyError"
  by (simp_all add: Construct_constructor_def Resource_addProperty_def Resource_property_def
      has_member_def inherited_def object_prototype_names_def Let_def split: option.splits)

section \<open>The example stores as the constructors build them\<close>

text \<open>
  Each example store is what the constructors leave behind when the nodes are
  created in the order given; for the tree with a parameter, the two orders of
  the two branches give the two lists of children of the root.
\<close>

lemmas step_defs = Construct_new_def Root_constructor_def Resource_constructor_def
  Construct_constructor_def new_construct_def has_member_def inherited_def object_prototype_names_def
  Let_def

lemma reparent_example_built:
  "run_steps
     [Construct_new 1 (Is 0) (Is ''x''),
      Root_constructor 2,
      Construct_new 3 (Is 2) (Is ''x''),
      Root_constructor 4] empty_state
   = (Inr (), empty_state\<lparr> constructs := reparent_example \<rparr>)"
  by (simp add: step_defs reparent_example_def empty_state_def fun_eq_iff)

lemma tie_example_built:
  "run_steps
     [Root_constructor 1,
      Construct_new 2 (Is 1) (Is ''a/''),
      Construct_new 3 (Is 1) (Is ''a''),
      Resource_constructor 4 2 ''b'' ''T1'',
      Resource_constructor 5 3 ''/b'' ''T2''] empty_state
   = (Inr (), tie_example [(''a/'', 2), (''a'', 3)])"
  "run_steps
     [Root_constructor 1,
      Construct_new 3 (Is 1) (Is ''a''),
      Construct_new 2 (Is 1) (Is ''a/''),
      Resource_constructor 4 2 ''b'' ''T1'',
      Resource_constructor 5 3 ''/b'' ''T2''] empty_state
   = (Inr (), tie_example [(''a'', 3), (''a/'', 2)])"
  by (simp_all add: step_defs example_defs fun_eq_iff)


end
